theory Spec2Isabelle
  imports Complex_Main "HOL-Library.Multiset"
begin

section \<open>JavaScript values and objects\<close>

text \<open>
  The four modules (logger, error tracker, performance monitor, health check) build their
  records as object literals with a spread of caller metadata at the end. An object is an
  association list in insertion order; a key that is assigned again keeps its place and
  takes the new value, as a JavaScript property does (keys that look like array indices,
  which JavaScript orders first, are not used by the modules).
\<close>

datatype jsval =
    JUndefined
  | JNull
  | JBool bool
  | JNum real
  | JStr string
  | JObj "(string \<times> jsval) list"

type_synonym obj = "(string \<times> jsval) list"

fun obj_set :: "'k \<Rightarrow> 'v \<Rightarrow> ('k \<times> 'v) list \<Rightarrow> ('k \<times> 'v) list" where
  "obj_set k v [] = [(k, v)]"
| "obj_set k v (p # ps) = (if fst p = k then (k, v) # ps else p # obj_set k v ps)"

text \<open>\<^verbatim>\<open>{ ...base, ...ext }\<close>: the properties of \<open>ext\<close> are assigned in order.\<close>

definition obj_spread :: "obj \<Rightarrow> obj \<Rightarrow> obj" where
  "obj_spread base ext = fold (\<lambda>(k, v). obj_set k v) ext base"

text \<open>\<^verbatim>\<open>o[k]\<close>: a missing property reads as \<^verbatim>\<open>undefined\<close>.\<close>

definition obj_get :: "obj \<Rightarrow> string \<Rightarrow> jsval" where
  "obj_get ob k = (case map_of ob k of None \<Rightarrow> JUndefined | Some v \<Rightarrow> v)"

definition obj_delete :: "string \<Rightarrow> obj \<Rightarrow> obj" where
  "obj_delete k ob = filter (\<lambda>p. fst p \<noteq> k) ob"

text \<open>The values \<^verbatim>\<open>!v\<close> and \<^verbatim>\<open>v || d\<close> treat as false (\<^verbatim>\<open>NaN\<close> is not modelled).\<close>

definition falsy :: "jsval \<Rightarrow> bool" where
  "falsy v = (v = JUndefined \<or> v = JNull \<or> v = JBool False \<or> v = JNum 0 \<or> v = JStr [])"

definition js_or :: "jsval \<Rightarrow> jsval \<Rightarrow> jsval" where
  "js_or a d = (if falsy a then d else a)"

text \<open>
  \<^verbatim>\<open>a || b\<close> on an optional number: \<^verbatim>\<open>undefined\<close> and \<^verbatim>\<open>0\<close> are both falsy, so both
  fall through to the default.
\<close>

definition num_or :: "nat option \<Rightarrow> nat \<Rightarrow> nat" where
  "num_or a d = (case a of None \<Rightarrow> d | Some n \<Rightarrow> if n = 0 then d else n)"

definition str_or :: "string option \<Rightarrow> string \<Rightarrow> string" where
  "str_or a d = (case a of None \<Rightarrow> d | Some s \<Rightarrow> if s = [] then d else s)"

text \<open>
  Host functions the modules call but do not define: \<^verbatim>\<open>JSON.stringify\<close> and the
  conversion of a number to text (inside a template literal, and \<^verbatim>\<open>toFixed\<close>). They are
  parameters.
\<close>

record builtins =
  stringify :: "jsval \<Rightarrow> string"
  number_to_string :: "real \<Rightarrow> string"
  toFixed :: "real \<Rightarrow> nat \<Rightarrow> string"

text \<open>The conversion a template literal \<^verbatim>\<open>`${v}`\<close> applies.\<close>

definition template_string :: "builtins \<Rightarrow> jsval \<Rightarrow> string" where
  "template_string js v =
     (case v of
        JUndefined \<Rightarrow> ''undefined''
      | JNull \<Rightarrow> ''null''
      | JBool b \<Rightarrow> (if b then ''true'' else ''false'')
      | JNum r \<Rightarrow> number_to_string js r
      | JStr s \<Rightarrow> s
      | JObj _ \<Rightarrow> ''[object Object]'')"

text \<open>
  The exception the host raises when a property of \<^verbatim>\<open>undefined\<close> or \<^verbatim>\<open>null\<close> is read, or when
  a value that is not a function is called.
\<close>

datatype js_error = TypeError

text \<open>
  The names of the properties that \<^verbatim>\<open>Object.prototype\<close> gives every object created by a
  literal \<^verbatim>\<open>{}\<close>. Each of them reads as a function, \<^verbatim>\<open>__proto__\<close> as the prototype itself:
  a value that is truthy and has no property \<^verbatim>\<open>push\<close>.
\<close>

definition Object_prototype_keys :: "string list" where
  "Object_prototype_keys =
     [''constructor'', ''__defineGetter__'', ''__defineSetter__'', ''hasOwnProperty'',
      ''__lookupGetter__'', ''__lookupSetter__'', ''isPrototypeOf'', ''propertyIsEnumerable'',
      ''toString'', ''valueOf'', ''__proto__'', ''toLocaleString'']"

section \<open>Logger (src/src/shared/logger/index.js, first part)\<close>

subsection \<open>The log directory\<close>

text \<open>
  The files the logger touches are \<^verbatim>\<open>edex-ui.log\<close> and \<^verbatim>\<open>edex-ui.log.<i>\<close> inside its
  log directory. The world holds that directory: whether it exists, the content of each
  file (a string of bytes), what \<^verbatim>\<open>fs.mkdirSync\<close> and \<^verbatim>\<open>fs.appendFileSync\<close> would fail
  with (\<open>None\<close>: they succeed), and what has been printed on the console.
\<close>

datatype path = LogFile | Rotated nat

datatype channel = ConsoleError | ConsoleWarn | ConsoleLog

datatype exn = FsError string

type_synonym files = "path \<Rightarrow> string option"

record world =
  dir_exists :: bool
  mkdir_error :: "string option"
  append_error :: "string option"
  files :: files
  console :: "(channel \<times> string) list"
  user_data :: "string option"
  cwd :: string

definition existsSync :: "path \<Rightarrow> files \<Rightarrow> bool" where
  "existsSync p fs = (fs p \<noteq> None)"

definition unlinkSync :: "path \<Rightarrow> files \<Rightarrow> files" where
  "unlinkSync p fs = fs(p := None)"

text \<open>\<^verbatim>\<open>fs.renameSync\<close> replaces a file that already has the new name.\<close>

definition renameSync :: "path \<Rightarrow> path \<Rightarrow> files \<Rightarrow> files" where
  "renameSync old new fs = (fs(new := fs old))(old := None)"

text \<open>\<^verbatim>\<open>fs.appendFileSync\<close> creates the file when it is missing; it throws when the
  directory is missing or the write fails.\<close>

definition append_failure :: "world \<Rightarrow> string option" where
  "append_failure w =
     (if \<not> dir_exists w then Some ''ENOENT: no such file or directory'' else append_error w)"

definition appended :: "string option \<Rightarrow> string \<Rightarrow> string" where
  "appended old s = (case old of None \<Rightarrow> s | Some d \<Rightarrow> d @ s)"

definition appendFileSync :: "path \<Rightarrow> string \<Rightarrow> world \<Rightarrow> exn + world" where
  "appendFileSync p s w =
     (case append_failure w of
        Some e \<Rightarrow> Inl (FsError e)
      | None \<Rightarrow> Inr (w\<lparr>files := (files w)(p \<mapsto> appended (files w p) s)\<rparr>))"

subsection \<open>Levels, configuration, construction\<close>

definition ERROR :: nat where "ERROR = 0"
definition WARN :: nat where "WARN = 1"
definition INFO :: nat where "INFO = 2"
definition DEBUG :: nat where "DEBUG = 3"
definition TRACE :: nat where "TRACE = 4"

definition LogLevelNames :: "string list" where
  "LogLevelNames = [''ERROR'', ''WARN'', ''INFO'', ''DEBUG'', ''TRACE'']"

text \<open>
  The \<^verbatim>\<open>config\<close> argument of the constructor, of which every field may be absent, and the
  fields of a \<^verbatim>\<open>Logger\<close>. The numbers are naturals. \<open>module_label\<close> is the field \<^verbatim>\<open>module\<close>.
\<close>

record config =
  cfg_level :: "nat option"
  cfg_module :: "string option"
  cfg_outputs :: "string list option"
  cfg_logDir :: "string option"
  cfg_maxLogSize :: "nat option"
  cfg_maxLogFiles :: "nat option"

record logger =
  level :: nat
  module_label :: string
  outputs :: "string list"
  logDir :: string
  maxLogSize :: nat
  maxLogFiles :: nat

definition path_join :: "string \<Rightarrow> string \<Rightarrow> string" where
  "path_join a b = a @ ''/'' @ b"

definition getDefaultLogDir :: "world \<Rightarrow> string" where
  "getDefaultLogDir w =
     (case user_data w of
        Some userDataPath \<Rightarrow> path_join userDataPath ''logs''
      | None \<Rightarrow> path_join (cwd w) ''logs'')"

definition ensureLogDirectory :: "world \<Rightarrow> exn + world" where
  "ensureLogDirectory w =
     (if \<not> dir_exists w then
        (case mkdir_error w of
           Some e \<Rightarrow> Inl (FsError e)
         | None \<Rightarrow> Inr (w\<lparr>dir_exists := True\<rparr>))
      else Inr w)"

text \<open>
  \<^verbatim>\<open>rotateLogs\<close>. \<open>rotate_step n i\<close> is the body of its loop
  \<^verbatim>\<open>for (let i = maxLogFiles - 1; i > 0; i--)\<close> at loop variable \<open>i\<close>, and the second argument
  of \<open>rotate_loop\<close> is the loop variable it starts from. \<open>rotate_files\<close> is the method on
  the files of the directory. Its calls into the file system are taken to succeed.
\<close>

definition rotate_step :: "nat \<Rightarrow> nat \<Rightarrow> files \<Rightarrow> files" where
  "rotate_step n i fs =
     (let oldFile = Rotated i; newFile = Rotated (i + 1) in
      if existsSync oldFile fs then
        (if i = n - 1 then unlinkSync oldFile fs else renameSync oldFile newFile fs)
      else fs)"

fun rotate_loop :: "nat \<Rightarrow> nat \<Rightarrow> files \<Rightarrow> files" where
  "rotate_loop n 0 fs = fs"
| "rotate_loop n (Suc j) fs = rotate_loop n j (rotate_step n (Suc j) fs)"

definition rotate_files :: "nat \<Rightarrow> nat \<Rightarrow> files \<Rightarrow> files" where
  "rotate_files size_max n fs =
     (case fs LogFile of
        None \<Rightarrow> fs
      | Some content \<Rightarrow>
          if length content > size_max then
            renameSync LogFile (Rotated 1) (rotate_loop n (n - 1) fs)
          else fs)"

definition rotateLogs :: "logger \<Rightarrow> world \<Rightarrow> world" where
  "rotateLogs lg w = w\<lparr>files := rotate_files (maxLogSize lg) (maxLogFiles lg) (files w)\<rparr>"

definition logger_fields :: "config \<Rightarrow> world \<Rightarrow> logger" where
  "logger_fields cfg w =
     \<lparr> level = num_or (cfg_level cfg) INFO,
       module_label = str_or (cfg_module cfg) ''app'',
       outputs = (case cfg_outputs cfg of None \<Rightarrow> [''console''] | Some os \<Rightarrow> os),
       logDir = (case cfg_logDir cfg of
                   None \<Rightarrow> getDefaultLogDir w
                 | Some d \<Rightarrow> if d = [] then getDefaultLogDir w else d),
       maxLogSize = num_or (cfg_maxLogSize cfg) (10 * 1024 * 1024),
       maxLogFiles = num_or (cfg_maxLogFiles cfg) 5 \<rparr>"

text \<open>\<^verbatim>\<open>new Logger(config)\<close>: an exception of \<^verbatim>\<open>ensureLogDirectory\<close> leaves the
  constructor, since nothing in it catches.\<close>

definition Logger_new :: "config \<Rightarrow> world \<Rightarrow> exn + (logger \<times> world)" where
  "Logger_new cfg w =
     (let lg = logger_fields cfg w in
      case ensureLogDirectory w of
        Inl e \<Rightarrow> Inl e
      | Inr w1 \<Rightarrow> Inr (lg, rotateLogs lg w1))"

subsection \<open>Writing an entry\<close>

text \<open>
  \<open>timestamp\<close> is what \<^verbatim>\<open>new Date().toISOString()\<close> returns at the call. The metadata is
  spread last, so a metadata key named like a standard field replaces that field.
  \<open>Logger_write\<close> is the method \<^verbatim>\<open>write\<close>.
\<close>

definition formatMessage :: "logger \<Rightarrow> string \<Rightarrow> nat \<Rightarrow> string \<Rightarrow> obj \<Rightarrow> obj" where
  "formatMessage lg timestamp lvl message meta =
     (let levelName = (if lvl < length LogLevelNames then JStr (LogLevelNames ! lvl) else JUndefined) in
      obj_spread
        [(''timestamp'', JStr timestamp),
         (''level'', levelName),
         (''module'', JStr (module_label lg)),
         (''message'', JStr message)]
        meta)"

definition colors :: "(string \<times> string) list" where
  "colors =
     [(''ERROR'', CHR 0x1B # ''[31m''),
      (''WARN'', CHR 0x1B # ''[33m''),
      (''INFO'', CHR 0x1B # ''[36m''),
      (''DEBUG'', CHR 0x1B # ''[90m''),
      (''TRACE'', CHR 0x1B # ''[37m'')]"

definition formatForConsole :: "builtins \<Rightarrow> obj \<Rightarrow> string" where
  "formatForConsole js logEntry =
     (let reset = CHR 0x1B # ''[0m'';
          color = (case map_of colors (template_string js (obj_get logEntry ''level'')) of
                     None \<Rightarrow> [] | Some c \<Rightarrow> c);
          output = color @ ''['' @ template_string js (obj_get logEntry ''timestamp'')
                     @ ''] ['' @ template_string js (obj_get logEntry ''level'')
                     @ ''] ['' @ template_string js (obj_get logEntry ''module'') @ '']'' @ reset
                     @ '' '' @ template_string js (obj_get logEntry ''message'')
      in if length logEntry > 4 then
           (let meta = obj_delete ''message'' (obj_delete ''module''
                         (obj_delete ''level'' (obj_delete ''timestamp'' logEntry)))
            in if length meta > 0 then output @ '' '' @ stringify js (JObj meta) else output)
         else output)"

definition formatForFile :: "builtins \<Rightarrow> obj \<Rightarrow> string" where
  "formatForFile js logEntry = stringify js (JObj logEntry)"

definition console_print :: "channel \<Rightarrow> string \<Rightarrow> world \<Rightarrow> world" where
  "console_print ch line w = w\<lparr>console := console w @ [(ch, line)]\<rparr>"

definition Logger_write :: "builtins \<Rightarrow> logger \<Rightarrow> string \<Rightarrow> nat \<Rightarrow> string \<Rightarrow> obj \<Rightarrow> world \<Rightarrow> world" where
  "Logger_write js lg timestamp lvl message meta w =
     (if lvl > level lg then w
      else
        let logEntry = formatMessage lg timestamp lvl message meta;
            w1 = (if ''console'' \<in> set (outputs lg) then
                    (let formatted = formatForConsole js logEntry in
                     if lvl = ERROR then console_print ConsoleError formatted w
                     else if lvl = WARN then console_print ConsoleWarn formatted w
                     else console_print ConsoleLog formatted w)
                  else w)
        in if ''file'' \<in> set (outputs lg) then
             (let formatted = formatForFile js logEntry @ [CHR 0x0A] in
              case appendFileSync LogFile formatted w1 of
                Inr w2 \<Rightarrow> w2
              | Inl (FsError e) \<Rightarrow> console_print ConsoleError (''Failed to write to log file: '' @ e) w1)
           else w1)"

text \<open>The console method \<^verbatim>\<open>write\<close> picks for a level.\<close>

definition channel_of :: "nat \<Rightarrow> channel" where
  "channel_of lvl = (if lvl = ERROR then ConsoleError else if lvl = WARN then ConsoleWarn else ConsoleLog)"

text \<open>The convenience methods; a call without metadata passes \<open>[]\<close>.\<close>

definition error :: "builtins \<Rightarrow> logger \<Rightarrow> string \<Rightarrow> string \<Rightarrow> obj \<Rightarrow> world \<Rightarrow> world" where
  "error js lg timestamp message meta = Logger_write js lg timestamp ERROR message meta"

definition warn :: "builtins \<Rightarrow> logger \<Rightarrow> string \<Rightarrow> string \<Rightarrow> obj \<Rightarrow> world \<Rightarrow> world" where
  "warn js lg timestamp message meta = Logger_write js lg timestamp WARN message meta"

definition info :: "builtins \<Rightarrow> logger \<Rightarrow> string \<Rightarrow> string \<Rightarrow> obj \<Rightarrow> world \<Rightarrow> world" where
  "info js lg timestamp message meta = Logger_write js lg timestamp INFO message meta"


definition trace :: "builtins \<Rightarrow> logger \<Rightarrow> string \<Rightarrow> string \<Rightarrow> obj \<Rightarrow> world \<Rightarrow> world" where
  "trace js lg timestamp message meta = Logger_write js lg timestamp TRACE message meta"

definition child :: "logger \<Rightarrow> string \<Rightarrow> world \<Rightarrow> exn + (logger \<times> world)" where
  "child lg moduleName w =
     Logger_new
       \<lparr> cfg_level = Some (level lg),
         cfg_module = Some moduleName,
         cfg_outputs = Some (outputs lg),
         cfg_logDir = Some (logDir lg),
         cfg_maxLogSize = Some (maxLogSize lg),
         cfg_maxLogFiles = Some (maxLogFiles lg) \<rparr> w"

subsection \<open>The global logger\<close>

text \<open>
  The module keeps one \<^verbatim>\<open>globalLogger\<close>; \<^verbatim>\<open>getLogger\<close> builds it from the environment
  variables \<^verbatim>\<open>LOG_LEVEL\<close> and \<^verbatim>\<open>NODE_ENV\<close> when it is missing.
\<close>

record process_env =
  LOG_LEVEL :: "string option"
  NODE_ENV :: "string option"

definition toUpperCase :: "string \<Rightarrow> string" where
  "toUpperCase s =
     map (\<lambda>c. let n = (of_char c :: nat) in if 97 \<le> n \<and> n \<le> 122 then char_of (n - 32) else c) s"

definition LogLevel :: "string \<Rightarrow> nat option" where
  "LogLevel k = map_of [(''ERROR'', ERROR), (''WARN'', WARN), (''INFO'', INFO),
                        (''DEBUG'', DEBUG), (''TRACE'', TRACE)] k"

definition initialize :: "config \<Rightarrow> world \<Rightarrow> exn + (logger \<times> logger option \<times> world)" where
  "initialize cfg w =
     (case Logger_new cfg w of
        Inl e \<Rightarrow> Inl e
      | Inr (lg, w1) \<Rightarrow> Inr (lg, Some lg, w1))"

definition getLogger :: "process_env \<Rightarrow> logger option \<Rightarrow> world \<Rightarrow> exn + (logger \<times> logger option \<times> world)" where
  "getLogger env globalLogger w =
     (case globalLogger of
        Some lg \<Rightarrow> Inr (lg, globalLogger, w)
      | None \<Rightarrow>
          (case Logger_new
                  \<lparr> cfg_level = (case LOG_LEVEL env of
                                   None \<Rightarrow> Some INFO
                                 | Some v \<Rightarrow> if v = [] then Some INFO else LogLevel (toUpperCase v)),
                    cfg_module = None,
                    cfg_outputs = Some (if NODE_ENV env = Some ''production'' then [''file'']
                                        else [''console'', ''file'']),
                    cfg_logDir = None,
                    cfg_maxLogSize = None,
                    cfg_maxLogFiles = None \<rparr> w of
             Inl e \<Rightarrow> Inl e
           | Inr (lg, w1) \<Rightarrow> Inr (lg, Some lg, w1)))"

definition createLogger :: "process_env \<Rightarrow> string \<Rightarrow> logger option \<Rightarrow> world \<Rightarrow> exn + (logger \<times> logger option \<times> world)" where
  "createLogger env moduleName globalLogger w =
     (case getLogger env globalLogger w of
        Inl e \<Rightarrow> Inl e
      | Inr (lg, g, w1) \<Rightarrow>
          (case child lg moduleName w1 of
             Inl e \<Rightarrow> Inl e
           | Inr (ch, w2) \<Rightarrow> Inr (ch, g, w2)))"

section \<open>Calls on a module's own logger\<close>

text \<open>
  The error tracker, the performance monitor and the health check each hold a child logger
  and report through it. Their models keep the calls they make, in order: the level, the
  message and the metadata of each.
\<close>

type_synonym log_call = "nat \<times> string \<times> obj"

section \<open>Error tracker (src/src/shared/logger/index.js, second part)\<close>

text \<open>
  \<open>errors\<close> is the array of records, \<open>errorCounts\<close> the \<^verbatim>\<open>Map\<close> from message to count, in
  insertion order. The value given to \<^verbatim>\<open>trackError\<close> is seen through its properties and
  through what \<^verbatim>\<open>String(error)\<close> returns for it.
\<close>

record tracker_config =
  cfg_enabled :: "bool option"
  cfg_maxErrors :: "nat option"

record tracker =
  enabled :: bool
  maxErrors :: nat
  errors :: "obj list"
  errorCounts :: "(jsval \<times> nat) list"
  tracker_log :: "log_call list"

record thrown =
  props :: obj
  as_string :: string

definition ErrorTracker_new :: "tracker_config \<Rightarrow> tracker" where
  "ErrorTracker_new cfg =
     \<lparr> enabled = (cfg_enabled cfg \<noteq> Some False),
       maxErrors = num_or (cfg_maxErrors cfg) 100,
       errors = [],
       errorCounts = [],
       tracker_log = [] \<rparr>"

text \<open>\<^verbatim>\<open>Map.prototype.get\<close> followed by \<^verbatim>\<open>|| 0\<close>.\<close>

definition count_of :: "(jsval \<times> nat) list \<Rightarrow> jsval \<Rightarrow> nat" where
  "count_of m k = (case map_of m k of None \<Rightarrow> 0 | Some c \<Rightarrow> c)"

definition errorRecord_of :: "real \<Rightarrow> thrown \<Rightarrow> obj \<Rightarrow> obj" where
  "errorRecord_of now err context =
     obj_spread
       [(''timestamp'', JNum now),
        (''message'', js_or (obj_get (props err) ''message'') (JStr (as_string err))),
        (''stack'', obj_get (props err) ''stack''),
        (''type'', js_or (obj_get (props err) ''type'') (JStr ''error''))]
       context"

text \<open>\<^verbatim>\<open>array.push(x)\<close>, then one \<^verbatim>\<open>array.shift()\<close> when the length is over the cap.\<close>

definition push_capped :: "nat \<Rightarrow> 'a \<Rightarrow> 'a list \<Rightarrow> 'a list" where
  "push_capped cap x xs = (let ys = xs @ [x] in if length ys > cap then tl ys else ys)"

definition trackError :: "real \<Rightarrow> thrown \<Rightarrow> obj \<Rightarrow> tracker \<Rightarrow> tracker" where
  "trackError now err context t =
     (if \<not> enabled t then t
      else
        let errorRecord = errorRecord_of now err context;
            errorKey = obj_get errorRecord ''message'';
            counts = obj_set errorKey (count_of (errorCounts t) errorKey + 1) (errorCounts t)
        in t\<lparr> errors := push_capped (maxErrors t) errorRecord (errors t),
               errorCounts := counts,
               tracker_log := tracker_log t @
                 [(ERROR, ''Error tracked'',
                   [(''type'', obj_get errorRecord ''type''),
                    (''message'', obj_get errorRecord ''message''),
                    (''count'', JNum (real (count_of counts errorKey)))])] \<rparr>)"

record summary =
  totalErrors :: nat
  recentErrors :: "obj list"
  topErrors :: "obj list"

text \<open>\<^verbatim>\<open>Array.prototype.sort\<close> is stable; the comparator \<^verbatim>\<open>b[1] - a[1]\<close> orders by falling count.\<close>

definition sorted_counts :: "(jsval \<times> nat) list \<Rightarrow> (jsval \<times> nat) list" where
  "sorted_counts m = take 5 (sort_key (\<lambda>e. - int (snd e)) m)"

definition getErrorSummary :: "tracker \<Rightarrow> summary" where
  "getErrorSummary t =
     \<lparr> totalErrors = length (errors t),
       recentErrors = drop (length (errors t) - 10) (errors t),
       topErrors = map (\<lambda>(message, count). [(''message'', message), (''count'', JNum (real count))])
                     (sorted_counts (errorCounts t)) \<rparr>"

definition clearErrors :: "tracker \<Rightarrow> tracker" where
  "clearErrors t =
     t\<lparr> errors := [], errorCounts := [],
        tracker_log := tracker_log t @ [(INFO, ''Error history cleared'', [])] \<rparr>"

text \<open>A run of \<^verbatim>\<open>trackError\<close> calls, each with its time, error and context.\<close>

fun trackErrors :: "(real \<times> thrown \<times> obj) list \<Rightarrow> tracker \<Rightarrow> tracker" where
  "trackErrors [] t = t"
| "trackErrors ((now, err, context) # cs) t = trackErrors cs (trackError now err context t)"

text \<open>The record a call stores, and the message under which it is counted.\<close>

definition record_of :: "real \<times> thrown \<times> obj \<Rightarrow> obj" where
  "record_of c = (case c of (now, err, context) \<Rightarrow> errorRecord_of now err context)"

definition call_key :: "real \<times> thrown \<times> obj \<Rightarrow> jsval" where
  "call_key c = obj_get (record_of c) ''message''"

text \<open>The distinct elements of a list, in the order of their first occurrence.\<close>

definition first_occurrences :: "'a list \<Rightarrow> 'a list" where
  "first_occurrences xs = rev (remdups (rev xs))"

section \<open>Performance monitor (src/src/shared/monitoring/performance-monitor.js)\<close>

text \<open>
  \<open>custom\<close> holds the own properties of the object \<^verbatim>\<open>metrics.custom\<close>, which the constructor
  creates as \<^verbatim>\<open>{}\<close>: from metric name to its array of samples. \<open>perf_now\<close> and \<open>date_now\<close>
  are the current readings of \<^verbatim>\<open>performance.now()\<close> and \<^verbatim>\<open>Date.now()\<close>.
\<close>

record monitor_config =
  cfg_mon_enabled :: "bool option"
  cfg_maxSamples :: "nat option"

record monitor =
  mon_enabled :: bool
  maxSamples :: nat
  custom :: "string \<Rightarrow> obj list option"
  perf_now :: real
  date_now :: real
  monitor_log :: "log_call list"

definition PerformanceMonitor_new :: "monitor_config \<Rightarrow> real \<Rightarrow> real \<Rightarrow> monitor" where
  "PerformanceMonitor_new cfg perf date =
     \<lparr> mon_enabled = (cfg_mon_enabled cfg \<noteq> Some False),
       maxSamples = num_or (cfg_maxSamples cfg) 300,
       custom = Map.empty,
       perf_now = perf,
       date_now = date,
       monitor_log = [] \<rparr>"

text \<open>
  What \<^verbatim>\<open>this.metrics.custom[name]\<close> reads: the own property when there is one, otherwise
  the property that the object inherits under that name when \<^verbatim>\<open>Object.prototype\<close> has one,
  otherwise \<^verbatim>\<open>undefined\<close>.
\<close>

datatype property = Own "obj list" | Inherited | Absent

definition custom_get :: "monitor \<Rightarrow> string \<Rightarrow> property" where
  "custom_get m name =
     (case custom m name of
        Some samples \<Rightarrow> Own samples
      | None \<Rightarrow> if name \<in> set Object_prototype_keys then Inherited else Absent)"

text \<open>
  \<^verbatim>\<open>recordMetric\<close>. The array is created only when \<^verbatim>\<open>custom[name]\<close> reads as falsy, which
  an inherited property does not; \<^verbatim>\<open>.push\<close> on an inherited property is a call of
  \<^verbatim>\<open>undefined\<close>, which throws. \<open>Inl\<close> is what the method throws, \<open>Inr\<close> the monitor after it
  has returned.
\<close>

definition recordMetric :: "string \<Rightarrow> jsval \<Rightarrow> obj \<Rightarrow> monitor \<Rightarrow> js_error + monitor" where
  "recordMetric name v metadata m =
     (if \<not> mon_enabled m then Inr m
      else
        let m1 = (if custom_get m name = Absent then m\<lparr>custom := (custom m)(name \<mapsto> [])\<rparr> else m);
            sample = obj_spread [(''timestamp'', JNum (date_now m)), (''value'', v)] metadata
        in case custom_get m1 name of
             Own samples \<Rightarrow>
               Inr (m1\<lparr>custom := (custom m1)(name \<mapsto> push_capped (maxSamples m1) sample samples)\<rparr>)
           | Inherited \<Rightarrow> Inl TypeError
           | Absent \<Rightarrow> Inl TypeError)"

text \<open>
  A run of \<^verbatim>\<open>recordMetric\<close> calls on one name, one after the other: the reading of
  \<^verbatim>\<open>Date.now()\<close> at each call, its value and its metadata. A call that throws ends the run.
\<close>

fun recordMetrics :: "string \<Rightarrow> (real \<times> jsval \<times> obj) list \<Rightarrow> monitor \<Rightarrow> js_error + monitor" where
  "recordMetrics name [] m = Inr m"
| "recordMetrics name ((now, v, metadata) # cs) m =
     (case recordMetric name v metadata (m\<lparr>date_now := now\<rparr>) of
        Inl thrown \<Rightarrow> Inl thrown
      | Inr m1 \<Rightarrow> recordMetrics name cs m1)"

text \<open>The sample a call stores.\<close>

definition sample_of :: "real \<times> jsval \<times> obj \<Rightarrow> obj" where
  "sample_of c =
     (case c of (now, v, metadata) \<Rightarrow> obj_spread [(''timestamp'', JNum now), (''value'', v)] metadata)"

text \<open>The sample stored last under a name, if there is one.\<close>

definition latest_sample :: "monitor \<Rightarrow> string \<Rightarrow> obj option" where
  "latest_sample m name =
     (case custom m name of None \<Rightarrow> None | Some xs \<Rightarrow> if xs = [] then None else Some (last xs))"

text \<open>
  \<^verbatim>\<open>calculateStats\<close>. The samples hold numbers; arithmetic is that of the reals, so rounding
  of floating point is not modelled. \<open>None\<close> is \<^verbatim>\<open>null\<close>, as argument and as result.
  \<open>min_stat\<close>, \<open>max_stat\<close> and \<open>count_stat\<close> are the fields \<^verbatim>\<open>min\<close>, \<^verbatim>\<open>max\<close> and \<^verbatim>\<open>count\<close>.
\<close>

record stats =
  min_stat :: real
  max_stat :: real
  avg :: real
  median :: real
  p95 :: real
  p99 :: real
  count_stat :: nat

definition num_of :: "jsval \<Rightarrow> real" where
  "num_of v = (case v of JNum r \<Rightarrow> r | _ \<Rightarrow> 0)"

definition sample_values :: "obj list \<Rightarrow> real list" where
  "sample_values samples = map (\<lambda>s. num_of (obj_get s ''value'')) samples"

definition calculateStats :: "obj list option \<Rightarrow> stats option" where
  "calculateStats samples =
     (case samples of
        None \<Rightarrow> None
      | Some ss \<Rightarrow>
          if length ss = 0 then None
          else
            let values = sample_values ss;
                sorted = sort values
            in Some \<lparr> min_stat = Min (set values),
                       max_stat = Max (set values),
                       avg = sum_list values / real (length values),
                       median = sorted ! nat \<lfloor>real (length sorted) / 2\<rfloor>,
                       p95 = sorted ! nat \<lfloor>real (length sorted) * 0.95\<rfloor>,
                       p99 = sorted ! nat \<lfloor>real (length sorted) * 0.99\<rfloor>,
                       count_stat = length values \<rparr>)"

text \<open>
  \<^verbatim>\<open>measure\<close> (here \<open>measureSync\<close>) and \<^verbatim>\<open>measureAsync\<close>. Running \<open>fn\<close> gives what it threw
  (\<open>Inl\<close>) or returned (\<open>Inr\<close>), for \<^verbatim>\<open>measureAsync\<close> what the awaited promise rejected or resolved with, and
  the monitor as \<open>fn\<close> left it, clocks included. The result of the wrapper is \<open>Inl\<close> when it
  throws (rejects) and \<open>Inr\<close> when it returns (resolves): it throws either the value that
  \<open>fn\<close> threw (\<open>Original\<close>) or an exception raised in the wrapper itself (\<open>Internal\<close>).
  \<open>measure_catch\<close> is the \<^verbatim>\<open>catch\<close> block, which the two methods share word for word; it
  also catches what \<^verbatim>\<open>recordMetric\<close> throws inside the \<^verbatim>\<open>try\<close> block.
\<close>

datatype 'e raised = Original 'e | Internal js_error

definition slow_warning :: "builtins \<Rightarrow> string \<Rightarrow> real \<Rightarrow> monitor \<Rightarrow> monitor" where
  "slow_warning js name duration m =
     (if duration > 100 then
        m\<lparr>monitor_log := monitor_log m @
            [(WARN, ''Slow operation detected'',
              [(''name'', JStr name), (''durationMs'', JStr (toFixed js duration 2))])]\<rparr>
      else m)"

definition measure_catch :: "string \<Rightarrow> real \<Rightarrow> 'e raised \<Rightarrow> monitor \<Rightarrow> ('e raised + 'r) \<times> monitor" where
  "measure_catch name start err m1 =
     (let duration = perf_now m1 - start in
      case recordMetric name (JNum duration) [(''error'', JBool True)] m1 of
        Inr m2 \<Rightarrow> (Inl err, m2)
      | Inl thrown \<Rightarrow> (Inl (Internal thrown), m1))"

definition measureSync :: "builtins \<Rightarrow> string \<Rightarrow> (monitor \<Rightarrow> ('e + 'r) \<times> monitor) \<Rightarrow> monitor \<Rightarrow> ('e raised + 'r) \<times> monitor" where
  "measureSync js name fn m =
     (let start = perf_now m in
      case fn m of
        (Inr result, m1) \<Rightarrow>
          (let duration = perf_now m1 - start in
           case recordMetric name (JNum duration) [] m1 of
             Inr m2 \<Rightarrow> (Inr result, slow_warning js name duration m2)
           | Inl thrown \<Rightarrow> measure_catch name start (Internal thrown) m1)
      | (Inl err, m1) \<Rightarrow> measure_catch name start (Original err) m1)"

definition measureAsync :: "builtins \<Rightarrow> string \<Rightarrow> (monitor \<Rightarrow> ('e + 'r) \<times> monitor) \<Rightarrow> monitor \<Rightarrow> ('e raised + 'r) \<times> monitor" where
  "measureAsync js name fn m =
     (let start = perf_now m in
      case fn m of
        (Inr result, m1) \<Rightarrow>
          (let duration = perf_now m1 - start in
           case recordMetric name (JNum duration) [] m1 of
             Inr m2 \<Rightarrow> (Inr result, slow_warning js name duration m2)
           | Inl thrown \<Rightarrow> measure_catch name start (Internal thrown) m1)
      | (Inl err, m1) \<Rightarrow> measure_catch name start (Original err) m1)"

section \<open>Health check (src/src/shared/monitoring/health-check.js)\<close>

text \<open>
  \<open>modules\<close> is the \<^verbatim>\<open>Map\<close> of registered modules, in insertion order. A module's
  \<open>check\<close> is run at a reading of \<^verbatim>\<open>Date.now()\<close> and settles, and the clock then shows the
  second component. It resolves with a result, seen through what its properties
  \<^verbatim>\<open>healthy\<close>, \<^verbatim>\<open>metrics\<close> and \<^verbatim>\<open>message\<close> read as (\<^verbatim>\<open>undefined\<close> for a property it does not
  have), or it rejects (throws) with a value, which may be any value: an error object, a
  string, \<^verbatim>\<open>undefined\<close>, \<^verbatim>\<open>null\<close>. An object is given by the properties that can be read
  from it. A check that resolves with \<^verbatim>\<open>undefined\<close> or \<^verbatim>\<open>null\<close> makes the \<^verbatim>\<open>try\<close> block
  throw a \<^verbatim>\<open>TypeError\<close> object at \<^verbatim>\<open>result.healthy\<close>, which the \<^verbatim>\<open>catch\<close> block receives as
  it receives a rejection: such a check is given as one that rejects with that object. A
  check that never settles is outside the model. \<open>clock\<close> is the current reading of
  \<^verbatim>\<open>Date.now()\<close>, and \<open>mod_name\<close> is the field \<^verbatim>\<open>name\<close> of a module.
\<close>

record check_result =
  healthy :: jsval
  metrics :: jsval
  message :: jsval

datatype check_outcome = Resolves check_result | Rejects jsval

text \<open>
  \<^verbatim>\<open>error.message\<close>: reading a property of \<^verbatim>\<open>undefined\<close> or \<^verbatim>\<open>null\<close> throws; a string, a
  number and a boolean have no such property.
\<close>

definition error_message :: "jsval \<Rightarrow> js_error + jsval" where
  "error_message err =
     (case err of
        JUndefined \<Rightarrow> Inl TypeError
      | JNull \<Rightarrow> Inl TypeError
      | JObj ob \<Rightarrow> Inr (obj_get ob ''message'')
      | _ \<Rightarrow> Inr JUndefined)"

record hmodule =
  mod_name :: string
  check :: "real \<Rightarrow> check_outcome \<times> real"
  lastCheck :: "real option"
  lastStatus :: "obj option"
  consecutiveFailures :: nat

record registry =
  modules :: "(string \<times> hmodule) list"
  clock :: real
  registry_log :: "log_call list"

definition HealthCheckSystem_new :: "real \<Rightarrow> registry" where
  "HealthCheckSystem_new now = \<lparr> modules = [], clock = now, registry_log = [] \<rparr>"

definition registry_logs :: "log_call \<Rightarrow> registry \<Rightarrow> registry" where
  "registry_logs c r = r\<lparr>registry_log := registry_log r @ [c]\<rparr>"

definition registerModule :: "string \<Rightarrow> (real \<Rightarrow> check_outcome \<times> real) \<Rightarrow> registry \<Rightarrow> registry" where
  "registerModule nm chk r =
     (let r1 = (if map_of (modules r) nm \<noteq> None then
                  registry_logs (WARN, ''Module already registered, overwriting'', [(''name'', JStr nm)]) r
                else r);
          r2 = r1\<lparr>modules := obj_set nm
                  \<lparr> mod_name = nm, check = chk, lastCheck = None, lastStatus = None,
                    consecutiveFailures = 0 \<rparr> (modules r1)\<rparr>
      in registry_logs (INFO, ''Module registered for health checks'', [(''name'', JStr nm)]) r2)"

definition unregisterModule :: "string \<Rightarrow> registry \<Rightarrow> registry" where
  "unregisterModule nm r =
     (if map_of (modules r) nm \<noteq> None then
        registry_logs (INFO, ''Module unregistered from health checks'', [(''name'', JStr nm)])
          (r\<lparr>modules := filter (\<lambda>p. fst p \<noteq> nm) (modules r)\<rparr>)
      else r)"

text \<open>
  \<^verbatim>\<open>checkModule\<close>: the status it returns (\<open>Inr\<close>; \<open>None\<close> is \<^verbatim>\<open>null\<close>) or what it throws, that
  is, what the promise it returns rejects with (\<open>Inl\<close>), and the registry afterwards. The
  \<^verbatim>\<open>catch\<close> block reads \<^verbatim>\<open>error.message\<close> first, for the argument of \<^verbatim>\<open>logger.error\<close>; when
  that read throws, nothing is logged and nothing is counted.
\<close>

definition checkModule :: "string \<Rightarrow> registry \<Rightarrow> (js_error + obj option) \<times> registry" where
  "checkModule nm r =
     (case map_of (modules r) nm of
        None \<Rightarrow> (Inr None, registry_logs (ERROR, ''Module not found'', [(''name'', JStr nm)]) r)
      | Some md \<Rightarrow>
          (let startTime = clock r in
           case check md startTime of
             (Resolves result, t) \<Rightarrow>
               (let duration = t - startTime;
                    status =
                      [(''name'', JStr nm),
                       (''timestamp'', JNum t),
                       (''healthy'', JBool (healthy result \<noteq> JBool False)),
                       (''metrics'', js_or (metrics result) (JObj [])),
                       (''message'', message result),
                       (''checkDuration'', JNum duration)];
                    md1 = md\<lparr>lastCheck := Some t, lastStatus := Some status\<rparr>
                in if healthy result \<noteq> JBool False then
                     (Inr (Some status),
                      r\<lparr>modules := obj_set nm (md1\<lparr>consecutiveFailures := 0\<rparr>) (modules r),
                        clock := t\<rparr>)
                   else
                     (let md2 = md1\<lparr>consecutiveFailures := consecutiveFailures md1 + 1\<rparr> in
                      (Inr (Some status),
                       registry_logs
                         (WARN, ''Module health check failed'',
                          [(''name'', JStr nm),
                           (''consecutiveFailures'', JNum (real (consecutiveFailures md2))),
                           (''message'', message result)])
                         (r\<lparr>modules := obj_set nm md2 (modules r), clock := t\<rparr>))))
           | (Rejects err, t) \<Rightarrow>
               (case error_message err of
                  Inl thrown \<Rightarrow> (Inl thrown, r\<lparr>clock := t\<rparr>)
                | Inr msg \<Rightarrow>
                    (let md1 = md\<lparr>consecutiveFailures := consecutiveFailures md + 1\<rparr> in
                     (Inr (Some [(''name'', JStr nm),
                                 (''timestamp'', JNum t),
                                 (''healthy'', JBool False),
                                 (''error'', msg),
                                 (''consecutiveFailures'', JNum (real (consecutiveFailures md1)))]),
                      (registry_logs (ERROR, ''Health check error'', [(''name'', JStr nm), (''error'', msg)]) r)
                        \<lparr>modules := obj_set nm md1 (modules r), clock := t\<rparr>)))))"

record last_status =
  ls_timestamp :: real
  overall :: string
  ls_modules :: "obj list"
  totalModules :: nat

definition getLastStatus :: "registry \<Rightarrow> last_status" where
  "getLastStatus r =
     (let mods = map (\<lambda>(nm, md).
                   case lastStatus md of
                     Some st \<Rightarrow> st
                   | None \<Rightarrow> [(''name'', JStr nm), (''healthy'', JNull),
                               (''message'', JStr ''Not yet checked'')])
                 (modules r)
      in \<lparr> ls_timestamp = clock r,
           overall = (if list_all (\<lambda>m. obj_get m ''healthy'' = JBool True) mods then ''healthy''
                      else if list_ex (\<lambda>m. obj_get m ''healthy'' = JBool False) mods then ''degraded''
                      else ''unknown''),
           ls_modules = mods,
           totalModules = length (modules r) \<rparr>)"

text \<open>The failure counter of a registered module.\<close>

definition failures_of :: "registry \<Rightarrow> string \<Rightarrow> nat option" where
  "failures_of r nm = map_option consecutiveFailures (map_of (modules r) nm)"

text \<open>\<open>n\<close> calls of \<^verbatim>\<open>checkModule\<close> on one module, one after the other.\<close>

fun checkModule_times :: "nat \<Rightarrow> string \<Rightarrow> registry \<Rightarrow> registry" where
  "checkModule_times 0 nm r = r"
| "checkModule_times (Suc n) nm r = checkModule_times n nm (snd (checkModule nm r))"

section \<open>A run of rotation checks\<close>

text \<open>
  \<open>rotations\<close> performs one rotation check per element of the list; before each check the
  active file has the given content (what the writes since the last check left in it).
  \<open>rotated_out\<close> lists the contents that were over the size limit at their check, the most
  recent first, and \<open>holds_generations n hist fs\<close> says that generation file \<open>k\<close> holds the
  \<open>k\<close>-th of them, for \<open>k\<close> up to \<open>max 1 (n - 1)\<close>, and that there is no other generation file.
\<close>

fun rotations :: "nat \<Rightarrow> nat \<Rightarrow> string list \<Rightarrow> files \<Rightarrow> files" where
  "rotations size_max n [] fs = fs"
| "rotations size_max n (c # cs) fs =
     rotations size_max n cs (rotate_files size_max n (fs(LogFile \<mapsto> c)))"

definition rotated_out :: "nat \<Rightarrow> string list \<Rightarrow> string list" where
  "rotated_out size_max cs = rev (filter (\<lambda>c. length c > size_max) cs)"

definition holds_generations :: "nat \<Rightarrow> string list \<Rightarrow> files \<Rightarrow> bool" where
  "holds_generations n hist fs =
     (\<forall>k. fs (Rotated k) =
        (if 1 \<le> k \<and> k \<le> min (length hist) (max 1 (n - 1)) then Some (hist ! (k - 1)) else None))"

definition three_big_files :: "string list" where
  "three_big_files = [replicate 101 CHR ''a'', replicate 101 CHR ''b'', replicate 101 CHR ''c'']"

definition six_big_files :: "string list" where
  "six_big_files = map (replicate 101) [CHR ''a'', CHR ''b'', CHR ''c'', CHR ''d'', CHR ''e'', CHR ''f'']"

text \<open>
  A log directory that holds three generation files, as a logger with a larger
  \<^verbatim>\<open>maxLogFiles\<close> leaves it, and an active file over 100 bytes.
\<close>

definition stale_directory :: files where
  "stale_directory =
     [LogFile \<mapsto> replicate 101 CHR ''d'', Rotated 1 \<mapsto> ''c'', Rotated 2 \<mapsto> ''b'', Rotated 3 \<mapsto> ''a'']"

section \<open>Example inputs\<close>

text \<open>
  Concrete inputs for the example runs. \<open>stub_host\<close> returns fixed text for every
  conversion; the example runs do not depend on the text. \<open>ready_world\<close> is an existing,
  writable, empty log directory; in \<open>readonly_world\<close> the directory is missing and cannot be
  created.
\<close>

definition stub_host :: builtins where
  "stub_host = \<lparr> stringify = (\<lambda>v. ''{}''), number_to_string = (\<lambda>r. ''0''), toFixed = (\<lambda>r n. ''0'') \<rparr>"

definition ready_world :: world where
  "ready_world =
     \<lparr> dir_exists = True, mkdir_error = None, append_error = None, files = Map.empty,
       console = [], user_data = None, cwd = ''/home/edex'' \<rparr>"

definition readonly_world :: world where
  "readonly_world =
     \<lparr> dir_exists = False, mkdir_error = Some ''EACCES: permission denied'', append_error = None,
       files = Map.empty, console = [], user_data = None, cwd = ''/'' \<rparr>"

definition empty_config :: config where
  "empty_config =
     \<lparr> cfg_level = None, cfg_module = None, cfg_outputs = None, cfg_logDir = None,
       cfg_maxLogSize = None, cfg_maxLogFiles = None \<rparr>"

definition warn_logger :: "string list \<Rightarrow> logger" where
  "warn_logger outs =
     \<lparr> level = WARN, module_label = ''app'', outputs = outs, logDir = ''/home/edex/logs'',
       maxLogSize = 100, maxLogFiles = 2 \<rparr>"

definition three_samples :: "(real \<times> jsval \<times> obj) list" where
  "three_samples = [(1, JNum 10, []), (2, JNum 20, []), (3, JNum 30, [])]"

definition three_errors :: "(real \<times> thrown \<times> obj) list" where
  "three_errors =
     [(1, \<lparr>props = [(''message'', JStr ''disk full'')], as_string = ''Error: disk full''\<rparr>, []),
      (2, \<lparr>props = [(''message'', JStr ''timeout'')], as_string = ''Error: timeout''\<rparr>, []),
      (3, \<lparr>props = [(''message'', JStr ''disk full'')], as_string = ''Error: disk full''\<rparr>, [])]"

definition failing_fn :: "monitor \<Rightarrow> (string + unit) \<times> monitor" where
  "failing_fn m = (Inl ''boom'', m\<lparr>perf_now := perf_now m + 5\<rparr>)"

definition returning_fn :: "monitor \<Rightarrow> (string + nat) \<times> monitor" where
  "returning_fn m = (Inr 42, m\<lparr>perf_now := perf_now m + 150\<rparr>)"

definition stored_samples :: "obj list" where
  "stored_samples =
     [[(''timestamp'', JNum 1), (''value'', JNum 30)],
      [(''timestamp'', JNum 2), (''value'', JNum 10)],
      [(''timestamp'', JNum 3), (''value'', JNum 20)]]"

text \<open>
  Checks, each taking one millisecond: one that always reports \<^verbatim>\<open>{healthy: false}\<close>, one
  that does so until the clock reads 3 and then reports \<^verbatim>\<open>{healthy: true}\<close>, one that always
  throws \<^verbatim>\<open>new Error('probe failed')\<close>, one that always throws the string \<^verbatim>\<open>'probe failed'\<close>,
  one that always returns \<^verbatim>\<open>Promise.reject()\<close>, and one that reports \<^verbatim>\<open>{healthy: false}\<close> once
  and from then on throws \<^verbatim>\<open>null\<close>.
\<close>

definition always_unhealthy :: "real \<Rightarrow> check_outcome \<times> real" where
  "always_unhealthy now =
     (Resolves \<lparr>healthy = JBool False, metrics = JUndefined, message = JStr ''down''\<rparr>, now + 1)"

definition recovering_check :: "real \<Rightarrow> check_outcome \<times> real" where
  "recovering_check now =
     (if now < 3 then
        (Resolves \<lparr>healthy = JBool False, metrics = JUndefined, message = JStr ''down''\<rparr>, now + 1)
      else (Resolves \<lparr>healthy = JBool True, metrics = JUndefined, message = JUndefined\<rparr>, now + 1))"

definition throwing_check :: "real \<Rightarrow> check_outcome \<times> real" where
  "throwing_check now = (Rejects (JObj [(''message'', JStr ''probe failed'')]), now + 1)"

definition throwing_string :: "real \<Rightarrow> check_outcome \<times> real" where
  "throwing_string now = (Rejects (JStr ''probe failed''), now + 1)"

definition rejecting_bare :: "real \<Rightarrow> check_outcome \<times> real" where
  "rejecting_bare now = (Rejects JUndefined, now + 1)"

definition unhealthy_then_null :: "real \<Rightarrow> check_outcome \<times> real" where
  "unhealthy_then_null now =
     (if now < 1 then
        (Resolves \<lparr>healthy = JBool False, metrics = JUndefined, message = JStr ''down''\<rparr>, now + 1)
      else (Rejects JNull, now + 1))"

text \<open>
  A registry with the module \<^verbatim>\<open>gpu\<close>, whose check returns \<^verbatim>\<open>Promise.reject()\<close>, and a registry
  with the module \<^verbatim>\<open>net\<close> after its first check, which reported \<^verbatim>\<open>{healthy: false}\<close>.
\<close>

definition gpu_registry :: registry where
  "gpu_registry = registerModule ''gpu'' rejecting_bare (HealthCheckSystem_new 0)"

definition net_registry :: registry where
  "net_registry =
     snd (checkModule ''net'' (registerModule ''net'' unhealthy_then_null (HealthCheckSystem_new 0)))"

section \<open>Log rotation\<close>

lemma rotate_step_eq:
  "rotate_step n i fs = (if fs (Rotated i) \<noteq> None then
          (if i = n - 1 then fs(Rotated i := None) else (fs(Rotated (i + 1) := fs (Rotated i)))(Rotated i := None))
        else fs)"
  by (simp add: rotate_step_def Let_def existsSync_def unlinkSync_def renameSync_def)

lemma rotate_loop_LogFile: "rotate_loop n j fs LogFile = fs LogFile"
  by (induction j arbitrary: fs) (simp_all add: rotate_step_eq)

lemma rotate_loop_above: "k = 0 \<or> j + 1 < k \<Longrightarrow> rotate_loop n j fs (Rotated k) = fs (Rotated k)"
proof (induction j arbitrary: fs)
  case 0
  then show ?case by simp
next
  case (Suc j)
  have "rotate_loop n (Suc j) fs (Rotated k) = rotate_step n (Suc j) fs (Rotated k)"
    unfolding rotate_loop.simps using Suc.prems by (intro Suc.IH) auto
  also have "\<dots> = fs (Rotated k)"
    using Suc.prems by (auto simp: rotate_step_eq)
  finally show ?case .
qed

lemma rotate_loop_top:
  "rotate_loop n j fs (Rotated (Suc j)) =
     (if 0 < j \<and> fs (Rotated j) \<noteq> None \<and> j \<noteq> n - 1 then fs (Rotated j) else fs (Rotated (Suc j)))"
proof (cases j)
  case 0
  then show ?thesis by simp
next
  case (Suc i)
  have "rotate_loop n (Suc i) fs (Rotated (Suc (Suc i))) = rotate_step n (Suc i) fs (Rotated (Suc (Suc i)))"
    unfolding rotate_loop.simps by (intro rotate_loop_above) simp
  also have "\<dots> = (if fs (Rotated (Suc i)) \<noteq> None \<and> Suc i \<noteq> n - 1 then fs (Rotated (Suc i))
       else fs (Rotated (Suc (Suc i))))"
    by (auto simp: rotate_step_eq)
  finally show ?thesis using Suc by (simp del: rotate_loop.simps)
qed

lemma rotate_loop_below:
  "1 \<le> k \<Longrightarrow> k \<le> j \<Longrightarrow> rotate_loop n j fs (Rotated k) =
     (if 2 \<le> k \<and> fs (Rotated (k - 1)) \<noteq> None \<and> k - 1 \<noteq> n - 1 then fs (Rotated (k - 1)) else None)"
proof (induction j arbitrary: fs)
  case 0
  then show ?case by simp
next
  case (Suc j)
  show ?case
  proof (cases "k = Suc j")
    case True
    have "rotate_loop n (Suc j) fs (Rotated k) = rotate_loop n j (rotate_step n (Suc j) fs) (Rotated (Suc j))"
      using True by (simp only: rotate_loop.simps)
    also have "\<dots> = (if 0 < j \<and> rotate_step n (Suc j) fs (Rotated j) \<noteq> None \<and> j \<noteq> n - 1
        then rotate_step n (Suc j) fs (Rotated j) else rotate_step n (Suc j) fs (Rotated (Suc j)))"
      by (rule rotate_loop_top)
    also have "\<dots> = (if 2 \<le> k \<and> fs (Rotated (k - 1)) \<noteq> None \<and> k - 1 \<noteq> n - 1 then fs (Rotated (k - 1)) else None)"
      using True by (cases j) (simp_all add: rotate_step_eq)
    finally show ?thesis .
  next
    case False
    then have kj: "k \<le> j" using Suc.prems by simp
    have "rotate_loop n (Suc j) fs (Rotated k) = rotate_loop n j (rotate_step n (Suc j) fs) (Rotated k)"
      by (simp only: rotate_loop.simps)
    also have "\<dots> = (if 2 \<le> k \<and> rotate_step n (Suc j) fs (Rotated (k - 1)) \<noteq> None \<and> k - 1 \<noteq> n - 1
         then rotate_step n (Suc j) fs (Rotated (k - 1)) else None)"
      using Suc.prems(1) kj by (rule Suc.IH)
    also have "rotate_step n (Suc j) fs (Rotated (k - 1)) = fs (Rotated (k - 1))"
      using kj Suc.prems(1) by (auto simp: rotate_step_eq)
    finally show ?thesis .
  qed
qed

lemma rotate_files_noop:
  "fs LogFile = None \<or> (\<exists>c. fs LogFile = Some c \<and> length c \<le> size_max) \<Longrightarrow> rotate_files size_max n fs = fs"
  by (auto simp: rotate_files_def)

lemma rotate_files_LogFile:
  "fs LogFile = Some c \<Longrightarrow> length c > size_max \<Longrightarrow> rotate_files size_max n fs LogFile = None"
  by (simp add: rotate_files_def renameSync_def)

lemma rotate_files_Rotated:
  assumes "fs LogFile = Some c" "length c > size_max"
  shows "rotate_files size_max n fs (Rotated k) =
     (if k = 1 then Some c else rotate_loop n (n - 1) fs (Rotated k))"
  using assms by (simp add: rotate_files_def renameSync_def rotate_loop_LogFile)

lemma holds_generations_step:
  assumes inv: "holds_generations n hist fs" and n: "1 \<le> n"
    and c: "fs LogFile = Some c" "length c > size_max"
  shows "holds_generations n (c # hist) (rotate_files size_max n fs)"
  unfolding holds_generations_def
proof
  fix k
  let ?m = "max 1 (n - 1)"
  have old: "\<And>i. fs (Rotated i) = (if 1 \<le> i \<and> i \<le> min (length hist) ?m then Some (hist ! (i - 1)) else None)"
    using inv by (simp add: holds_generations_def)
  consider "k = 0" | "k = 1" | "2 \<le> k" "k \<le> n - 1" | "2 \<le> k" "k = n" | "2 \<le> k" "n < k"
    by linarith
  then show "rotate_files size_max n fs (Rotated k) =
      (if 1 \<le> k \<and> k \<le> min (length (c # hist)) ?m then Some ((c # hist) ! (k - 1)) else None)"
  proof cases
    case 1
    then show ?thesis
      using c old[of 0] by (simp add: rotate_files_Rotated rotate_loop_above)
  next
    case 2
    then show ?thesis using c by (simp add: rotate_files_Rotated)
  next
    case 3
    then have "rotate_files size_max n fs (Rotated k) =
       (if fs (Rotated (k - 1)) \<noteq> None \<and> k - 1 \<noteq> n - 1 then fs (Rotated (k - 1)) else None)"
      using c by (simp add: rotate_files_Rotated rotate_loop_below)
    then show ?thesis using 3 old[of "k - 1"]
      by (cases k) (auto simp: nth_Cons')
  next
    case 4
    then have "rotate_files size_max n fs (Rotated k) = fs (Rotated n)"
      using c rotate_loop_top[of n "n - 1" fs] by (simp add: rotate_files_Rotated)
    then show ?thesis using 4 old[of n] by auto
  next
    case 5
    then have "rotate_files size_max n fs (Rotated k) = fs (Rotated k)"
      using c by (simp add: rotate_files_Rotated rotate_loop_above)
    then show ?thesis using 5 old[of k] n by auto
  qed
qed

lemma holds_generations_upd:
  "holds_generations n hist fs \<Longrightarrow> holds_generations n hist (fs(LogFile := x))"
  by (simp add: holds_generations_def)

lemma holds_generations_rotations:
  assumes "holds_generations n hist fs" "1 \<le> n"
  shows "holds_generations n (rotated_out size_max cs @ hist) (rotations size_max n cs fs)"
  using assms(1)
proof (induction cs arbitrary: fs hist)
  case Nil
  then show ?case by (simp add: rotated_out_def)
next
  case (Cons c cs)
  let ?fs = "fs(LogFile \<mapsto> c)"
  show ?case
  proof (cases "length c > size_max")
    case True
    have step: "holds_generations n (c # hist) (rotate_files size_max n ?fs)"
      using Cons.prems assms(2) True
      by (intro holds_generations_step holds_generations_upd) simp_all
    have "rotated_out size_max (c # cs) @ hist = rotated_out size_max cs @ (c # hist)"
      using True by (simp add: rotated_out_def)
    moreover have "rotations size_max n (c # cs) fs = rotations size_max n cs (rotate_files size_max n ?fs)"
      by (simp only: rotations.simps)
    ultimately show ?thesis using Cons.IH[OF step] by (simp only:)
  next
    case False
    have noop: "rotate_files size_max n ?fs = ?fs"
      using False by (intro rotate_files_noop) simp
    have keep: "holds_generations n hist ?fs"
      using Cons.prems by (rule holds_generations_upd)
    have "rotated_out size_max (c # cs) @ hist = rotated_out size_max cs @ hist"
      using False by (simp add: rotated_out_def)
    moreover have "rotations size_max n (c # cs) fs = rotations size_max n cs ?fs"
      by (simp only: rotations.simps noop)
    ultimately show ?thesis using Cons.IH[OF keep] by (simp only:)
  qed
qed

lemma fresh_holds: "\<forall>k. fs (Rotated k) = None \<Longrightarrow> holds_generations n [] fs"
  by (simp add: holds_generations_def)

lemma holds_generations_set:
  "holds_generations n hist fs \<Longrightarrow> {k. fs (Rotated k) \<noteq> None} = {1..min (length hist) (max 1 (n - 1))}"
  by (auto simp: holds_generations_def)

lemma paths_subset:
  "{p. fs p \<noteq> None} \<subseteq> insert LogFile (Rotated ` {k. fs (Rotated k) \<noteq> None})"
proof
  fix p assume "p \<in> {p. fs p \<noteq> None}"
  then show "p \<in> insert LogFile (Rotated ` {k. fs (Rotated k) \<noteq> None})"
    by (cases p) auto
qed

text \<open>
  What holds from a log directory without generation files, with \<^verbatim>\<open>maxLogFiles = n\<close>, after
  any run of rotation checks: at most \<open>n\<close> generation files exist; generation \<open>k\<close> holds the
  \<open>k\<close>-th most recently rotated content; and at the next rotation the active file becomes
  generation 1 and every generation moves up by one, except that a generation may be
  dropped, and then no older one is present.
\<close>

lemma rotation_generation_bounds:
  assumes fresh: "\<forall>k. fs0 (Rotated k) = None" and n: "1 \<le> n"
  shows "(let fs = rotations size_max n cs fs0; hist = rotated_out size_max cs in
           card {k. fs (Rotated k) \<noteq> None} \<le> n
         \<and> card {p. fs p \<noteq> None} \<le> n + 1
         \<and> (\<forall>k. fs (Rotated k) \<noteq> None \<longrightarrow>
               1 \<le> k \<and> k \<le> n \<and> k \<le> length hist \<and> fs (Rotated k) = Some (hist ! (k - 1)))
         \<and> (\<forall>c k. size_max < length c \<and> fs (Rotated k) \<noteq> None \<longrightarrow>
               (let fs' = rotate_files size_max n (fs(LogFile \<mapsto> c)) in
                  fs' (Rotated 1) = Some c
                \<and> (fs' (Rotated (Suc k)) = fs (Rotated k)
                     \<or> fs' (Rotated (Suc k)) = None \<and> (\<forall>j>k. fs (Rotated j) = None)))))"
proof -
  define fs where "fs = rotations size_max n cs fs0"
  define hist where "hist = rotated_out size_max cs"
  let ?m = "min (length hist) (max 1 (n - 1))"
  have inv: "holds_generations n hist fs"
    using holds_generations_rotations[OF fresh_holds[OF fresh] n, of size_max cs]
    by (simp add: fs_def hist_def)
  have gens: "{k. fs (Rotated k) \<noteq> None} = {1..?m}"
    using inv by (rule holds_generations_set)
  have mx: "max 1 (n - 1) \<le> n" using n by simp
  have m_le: "?m \<le> n" using mx by simp
  have c1: "card {k. fs (Rotated k) \<noteq> None} \<le> n"
    unfolding gens using m_le by simp
  have fin: "finite {k. fs (Rotated k) \<noteq> None}"
    unfolding gens by simp
  have "card {p. fs p \<noteq> None} \<le> card (insert LogFile (Rotated ` {k. fs (Rotated k) \<noteq> None}))"
    using fin by (intro card_mono paths_subset) simp
  also have "\<dots> \<le> Suc (card (Rotated ` {k. fs (Rotated k) \<noteq> None}))"
    using fin by (simp add: card_insert_if)
  also have "\<dots> \<le> Suc (card {k. fs (Rotated k) \<noteq> None})"
    using fin by (simp add: card_image_le)
  finally have c2: "card {p. fs p \<noteq> None} \<le> n + 1"
    using c1 by simp
  have c3: "\<forall>k. fs (Rotated k) \<noteq> None \<longrightarrow>
               1 \<le> k \<and> k \<le> n \<and> k \<le> length hist \<and> fs (Rotated k) = Some (hist ! (k - 1))"
  proof (intro allI impI)
    fix k assume "fs (Rotated k) \<noteq> None"
    then have k: "1 \<le> k" "k \<le> ?m"
      using inv by (auto simp: holds_generations_def split: if_splits)
    then have "fs (Rotated k) = Some (hist ! (k - 1))"
      using inv by (simp add: holds_generations_def)
    then show "1 \<le> k \<and> k \<le> n \<and> k \<le> length hist \<and> fs (Rotated k) = Some (hist ! (k - 1))"
      using k mx by linarith
  qed
  have c4: "\<forall>c k. size_max < length c \<and> fs (Rotated k) \<noteq> None \<longrightarrow>
               (let fs' = rotate_files size_max n (fs(LogFile \<mapsto> c)) in
                  fs' (Rotated 1) = Some c
                \<and> (fs' (Rotated (Suc k)) = fs (Rotated k)
                     \<or> fs' (Rotated (Suc k)) = None \<and> (\<forall>j>k. fs (Rotated j) = None)))"
  proof (intro allI impI)
    fix c :: string and k
    assume a: "size_max < length c \<and> fs (Rotated k) \<noteq> None"
    define fs' where "fs' = rotate_files size_max n (fs(LogFile \<mapsto> c))"
    have inv': "holds_generations n (c # hist) fs'"
      unfolding fs'_def using inv n a
      by (intro holds_generations_step holds_generations_upd) simp_all
    have k: "1 \<le> k" "k \<le> ?m"
      using a inv by (auto simp: holds_generations_def split: if_splits)
    have old: "fs (Rotated k) = Some (hist ! (k - 1))"
      using inv k by (simp add: holds_generations_def)
    have new1: "fs' (Rotated 1) = Some c"
      using inv' by (simp add: holds_generations_def)
    have "fs' (Rotated (Suc k)) = fs (Rotated k)
                     \<or> fs' (Rotated (Suc k)) = None \<and> (\<forall>j>k. fs (Rotated j) = None)"
    proof (cases "Suc k \<le> max 1 (n - 1)")
      case True
      then have "fs' (Rotated (Suc k)) = Some (hist ! (k - 1))"
        using inv' k by (simp add: holds_generations_def)
      then show ?thesis using old by simp
    next
      case False
      then have "fs' (Rotated (Suc k)) = None"
        using inv' by (simp add: holds_generations_def)
      moreover have "\<forall>j>k. fs (Rotated j) = None"
        using inv False by (auto simp: holds_generations_def)
      ultimately show ?thesis by simp
    qed
    then show "let fs' = rotate_files size_max n (fs(LogFile \<mapsto> c)) in
                  fs' (Rotated 1) = Some c
                \<and> (fs' (Rotated (Suc k)) = fs (Rotated k)
                     \<or> fs' (Rotated (Suc k)) = None \<and> (\<forall>j>k. fs (Rotated j) = None))"
      using new1 by (simp add: fs'_def Let_def)
  qed
  show ?thesis
    using c1 c2 c3 c4 unfolding Let_def fs_def hist_def by blast
qed

text \<open>
  The number of generations is \<open>max 1 (n - 1)\<close> once that many rotations have taken place:
  the loop deletes generation \<open>n - 1\<close> where it would have to rename it to \<open>n\<close>, so no
  generation \<open>n\<close> is ever written.
\<close>

lemma rotation_generation_count:
  assumes "\<forall>k. fs0 (Rotated k) = None" "1 \<le> n"
  shows "card {k. rotations size_max n cs fs0 (Rotated k) \<noteq> None}
           = min (length (rotated_out size_max cs)) (max 1 (n - 1))"
  using holds_generations_set[OF holds_generations_rotations[OF fresh_holds[OF assms(1)] assms(2), of size_max cs]]
  by simp

lemma rotation_never_fills_the_cap:
  assumes "\<forall>k. fs0 (Rotated k) = None" "2 \<le> n"
  shows "card {k. rotations size_max n cs fs0 (Rotated k) \<noteq> None} < n"
    and "rotations size_max n cs fs0 (Rotated n) = None"
proof -
  have n: "1 \<le> n" using assms(2) by simp
  show "card {k. rotations size_max n cs fs0 (Rotated k) \<noteq> None} < n"
    using rotation_generation_count[OF assms(1) n, of size_max cs] assms(2) by simp
  have "holds_generations n (rotated_out size_max cs @ []) (rotations size_max n cs fs0)"
    using fresh_holds[OF assms(1)] n by (rule holds_generations_rotations)
  then have gens: "{k. rotations size_max n cs fs0 (Rotated k) \<noteq> None}
      = {1..min (length (rotated_out size_max cs @ [])) (max 1 (n - 1))}"
    by (rule holds_generations_set)
  have "n \<notin> {1..min (length (rotated_out size_max cs @ [])) (max 1 (n - 1))}"
    using assms(2) by auto
  then have "n \<notin> {k. rotations size_max n cs fs0 (Rotated k) \<noteq> None}"
    unfolding gens .
  then show "rotations size_max n cs fs0 (Rotated n) = None"
    by blast
qed

lemma two_rotations:
  "rotations 100 2 [replicate 101 CHR ''a'', replicate 101 CHR ''b''] Map.empty
     = [Rotated 1 \<mapsto> replicate 101 CHR ''b'']"
  by (simp add: rotate_files_def rotate_step_def existsSync_def
      unlinkSync_def renameSync_def fun_eq_iff)

lemma three_rotations:
  "rotations 100 2 three_big_files Map.empty = [Rotated 1 \<mapsto> replicate 101 CHR ''c'']"
  by (simp add: three_big_files_def rotate_files_def rotate_step_def existsSync_def
      unlinkSync_def renameSync_def fun_eq_iff)

lemma six_rotations:
  "rotations 100 5 six_big_files Map.empty
     = [Rotated 1 \<mapsto> replicate 101 CHR ''f'', Rotated 2 \<mapsto> replicate 101 CHR ''e'',
        Rotated 3 \<mapsto> replicate 101 CHR ''d'', Rotated 4 \<mapsto> replicate 101 CHR ''c'']"
proof -
  have fresh: "\<forall>k. (Map.empty :: files) (Rotated k) = None" by simp
  have out: "rotated_out 100 six_big_files @ [] = rev six_big_files"
    by (simp add: rotated_out_def six_big_files_def)
  have inv: "holds_generations 5 (rev six_big_files) (rotations 100 5 six_big_files Map.empty)"
    using holds_generations_rotations[OF fresh_holds[OF fresh], of 5 100 six_big_files] out by simp
  have active: "rotations 100 5 six_big_files Map.empty LogFile = None"
    by (simp add: six_big_files_def rotate_files_def renameSync_def rotate_loop_LogFile)
  show ?thesis
  proof
    fix p
    show "rotations 100 5 six_big_files Map.empty p
     = [Rotated 1 \<mapsto> replicate 101 CHR ''f'', Rotated 2 \<mapsto> replicate 101 CHR ''e'',
        Rotated 3 \<mapsto> replicate 101 CHR ''d'', Rotated 4 \<mapsto> replicate 101 CHR ''c''] p"
    proof (cases p)
      case LogFile
      then show ?thesis using active by simp
    next
      case (Rotated k)
      have "rotations 100 5 six_big_files Map.empty (Rotated k) =
        (if 1 \<le> k \<and> k \<le> min (length (rev six_big_files)) (max 1 (5 - 1))
         then Some (rev six_big_files ! (k - 1)) else None)"
        using inv unfolding holds_generations_def by blast
      moreover consider "k = 0" | "k = 1" | "k = 2" | "k = 3" | "k = 4" | "5 \<le> k" by linarith
      ultimately show ?thesis
        using Rotated by cases (simp_all add: six_big_files_def)
    qed
  qed
qed

text \<open>
  In a directory that already holds generation files above \<open>n - 1\<close>, a rotation deletes
  generation \<open>n - 1\<close>, which is not the oldest, and leaves the older ones: with
  \<^verbatim>\<open>maxLogFiles = 2\<close> three generations remain.
\<close>

lemma rotation_leaves_stale_generations:
  "rotate_files 100 2 stale_directory
     = [Rotated 1 \<mapsto> replicate 101 CHR ''d'', Rotated 2 \<mapsto> ''b'', Rotated 3 \<mapsto> ''a'']"
  by (simp add: stale_directory_def rotate_files_def rotate_step_def existsSync_def
      unlinkSync_def renameSync_def fun_eq_iff)

text \<open>
  C1. The claim is that rotation retains the configured number of generations: with
  \<^verbatim>\<open>maxLogSize = 100\<close> and \<^verbatim>\<open>maxLogFiles = 2\<close> the active file plus 2 generations, a
  generation being deleted only when the cap is exceeded. The code keeps one generation fewer.
  With these settings and an empty directory, the second rotation deletes the content rotated
  first although only one generation exists, and after the third rotation the directory
  holds the single file \<^verbatim>\<open>edex-ui.log.1\<close> with the content rotated last:
  \<^verbatim>\<open>edex-ui.log.2\<close> is never written. With \<^verbatim>\<open>maxLogFiles = 5\<close>, the default, six rotations
  leave the 4 generations \<^verbatim>\<open>edex-ui.log.1\<close> to \<^verbatim>\<open>edex-ui.log.4\<close>: the content rotated second is
  deleted while only four generations exist.
\<close>

theorem rotation_keeps_one_generation_fewer:
  "rotations 100 2 [replicate 101 CHR ''a'', replicate 101 CHR ''b''] Map.empty
     = [Rotated 1 \<mapsto> replicate 101 CHR ''b'']
   \<and> rotations 100 2 three_big_files Map.empty = [Rotated 1 \<mapsto> replicate 101 CHR ''c'']
   \<and> rotations 100 2 three_big_files Map.empty (Rotated 2) = None
   \<and> card {k. rotations 100 2 three_big_files Map.empty (Rotated k) \<noteq> None} = 1
   \<and> rotations 100 5 six_big_files Map.empty
     = [Rotated 1 \<mapsto> replicate 101 CHR ''f'', Rotated 2 \<mapsto> replicate 101 CHR ''e'',
        Rotated 3 \<mapsto> replicate 101 CHR ''d'', Rotated 4 \<mapsto> replicate 101 CHR ''c'']
   \<and> card {k. rotations 100 5 six_big_files Map.empty (Rotated k) \<noteq> None} = 4"
proof -
  have fresh: "\<forall>k. (Map.empty :: files) (Rotated k) = None" by simp
  have two: "card {k. rotations 100 2 three_big_files Map.empty (Rotated k) \<noteq> None} = 1"
    using rotation_generation_count[OF fresh, of 2 100 three_big_files]
    by (simp add: rotated_out_def three_big_files_def)
  have five: "card {k. rotations 100 5 six_big_files Map.empty (Rotated k) \<noteq> None} = 4"
    using rotation_generation_count[OF fresh, of 5 100 six_big_files]
    by (simp add: rotated_out_def six_big_files_def)
  have none: "rotations 100 2 three_big_files Map.empty (Rotated 2) = None"
    by (simp only: three_rotations) simp
  show ?thesis
    by (intro conjI two_rotations three_rotations none two six_rotations five)
qed

section \<open>Logger: emitting entries\<close>

lemma Logger_write_skip: "level lg < lvl \<Longrightarrow> Logger_write js lg ts lvl msg meta w = w"
  by (simp add: Logger_write_def)

lemma Logger_write_console:
  assumes "lvl \<le> level lg"
  shows "console (Logger_write js lg ts lvl msg meta w) =
           console w
           @ (if ''console'' \<in> set (outputs lg)
              then [(channel_of lvl, formatForConsole js (formatMessage lg ts lvl msg meta))] else [])
           @ (if ''file'' \<in> set (outputs lg) then
                (case append_failure w of
                   None \<Rightarrow> []
                 | Some e \<Rightarrow> [(ConsoleError, ''Failed to write to log file: '' @ e)])
              else [])"
  using assms
  by (simp add: Logger_write_def Let_def console_print_def channel_of_def appendFileSync_def
      append_failure_def split: option.splits)

lemma Logger_write_files:
  assumes "lvl \<le> level lg"
  shows "files (Logger_write js lg ts lvl msg meta w) =
           (if ''file'' \<in> set (outputs lg) \<and> append_failure w = None
            then (files w)(LogFile \<mapsto> appended (files w LogFile)
                    (formatForFile js (formatMessage lg ts lvl msg meta) @ [CHR 0x0A]))
            else files w)"
  using assms
  by (simp add: Logger_write_def Let_def console_print_def channel_of_def appendFileSync_def
      append_failure_def split: option.splits)

lemma obj_set_get: "obj_get (obj_set k v ob) k' = (if k' = k then v else obj_get ob k')"
  by (induction ob) (auto simp: obj_get_def)

lemma obj_spread_get_other:
  "k \<notin> fst ` set ext \<Longrightarrow> obj_get (obj_spread base ext) k = obj_get base k"
  unfolding obj_spread_def
  by (induction ext arbitrary: base) (auto simp: obj_set_get)

lemma formatMessage_level:
  assumes "''level'' \<notin> fst ` set meta" "lvl < 5"
  shows "obj_get (formatMessage lg ts lvl msg meta) ''level'' = JStr (LogLevelNames ! lvl)"
proof -
  have "obj_get (formatMessage lg ts lvl msg meta) ''level''
          = obj_get [(''timestamp'', JStr ts), (''level'', JStr (LogLevelNames ! lvl)),
                     (''module'', JStr (module_label lg)), (''message'', JStr msg)] ''level''"
    using assms by (simp add: formatMessage_def Let_def LogLevelNames_def obj_spread_get_other)
  then show ?thesis by (simp add: obj_get_def)
qed

lemma obj_spread_get_meta:
  "distinct (map fst ext) \<Longrightarrow> k \<in> fst ` set ext \<Longrightarrow> obj_get (obj_spread base ext) k = obj_get ext k"
proof (induction ext arbitrary: base)
  case Nil
  then show ?case by simp
next
  case (Cons p ext)
  obtain k1 v1 where p: "p = (k1, v1)" by (cases p)
  have step: "obj_spread base ((k1, v1) # ext) = obj_spread (obj_set k1 v1 base) ext"
    by (simp add: obj_spread_def)
  show ?case
  proof (cases "k \<in> fst ` set ext")
    case True
    then have ne: "k \<noteq> k1" using Cons.prems(1) p by auto
    have "obj_get (obj_spread (obj_set k1 v1 base) ext) k = obj_get ext k"
      using Cons.prems(1) True by (intro Cons.IH) simp_all
    moreover have "obj_get ((k1, v1) # ext) k = obj_get ext k"
      using ne by (simp add: obj_get_def)
    ultimately show ?thesis unfolding p step by simp
  next
    case False
    then have k: "k = k1" using Cons.prems(2) p by auto
    have "obj_get (obj_spread (obj_set k1 v1 base) ext) k = obj_get (obj_set k1 v1 base) k"
      using False by (rule obj_spread_get_other)
    moreover have "obj_get ((k1, v1) # ext) k = v1"
      using k by (simp add: obj_get_def)
    ultimately show ?thesis unfolding p step by (simp add: k obj_set_get)
  qed
qed

lemma formatMessage_level_meta:
  assumes "distinct (map fst meta)" "''level'' \<in> fst ` set meta"
  shows "obj_get (formatMessage lg ts lvl msg meta) ''level'' = obj_get meta ''level''"
  using assms by (simp add: formatMessage_def Let_def obj_spread_get_meta)



subsection \<open>Faults of the file system\<close>

text \<open>
  An append that fails is caught inside \<^verbatim>\<open>write\<close> and reported with \<^verbatim>\<open>console.error\<close>
  (\<open>Logger_write_console\<close> above shows the line). A directory that cannot be created is
  not: \<^verbatim>\<open>ensureLogDirectory\<close> has no handler, and neither has the constructor nor any of its
  callers.
\<close>

lemma ensureLogDirectory_failure:
  "\<not> dir_exists w \<Longrightarrow> mkdir_error w = Some e \<Longrightarrow> Logger_new cfg w = Inl (FsError e)"
  by (simp add: Logger_new_def ensureLogDirectory_def Let_def)

text \<open>
  C2. The claim is that no I/O fault of the logger reaches the caller, an uncreatable log
  directory included. With a missing directory that \<^verbatim>\<open>fs.mkdirSync\<close> cannot create, the
  constructor, \<^verbatim>\<open>initialize\<close> and \<^verbatim>\<open>createLogger\<close> all end with the exception of
  \<^verbatim>\<open>mkdirSync\<close>.
\<close>

theorem uncreatable_directory_raises:
  "Logger_new empty_config readonly_world = Inl (FsError ''EACCES: permission denied'')
   \<and> initialize empty_config readonly_world = Inl (FsError ''EACCES: permission denied'')
   \<and> createLogger \<lparr>LOG_LEVEL = None, NODE_ENV = None\<rparr> ''terminal'' None readonly_world
         = Inl (FsError ''EACCES: permission denied'')"
  by (simp add: initialize_def createLogger_def getLogger_def ensureLogDirectory_failure readonly_world_def)

subsection \<open>The threshold\<close>

text \<open>
  C6, as stated, fails for metadata with a key \<^verbatim>\<open>level\<close>: at threshold \<^verbatim>\<open>WARN\<close>, the call
  \<^verbatim>\<open>error('boom', {level: 'INFO'})\<close> writes one record, and its level field is \<^verbatim>\<open>"INFO"\<close>.
\<close>

theorem metadata_replaces_level:
  "files (error stub_host (warn_logger [''file'']) ''2026-01-01T00:00:00.000Z'' ''boom''
            [(''level'', JStr ''INFO'')] ready_world) LogFile
     = Some (formatForFile stub_host
               [(''timestamp'', JStr ''2026-01-01T00:00:00.000Z''), (''level'', JStr ''INFO''),
                (''module'', JStr ''app''), (''message'', JStr ''boom'')] @ [CHR 0x0A])
   \<and> obj_get (formatMessage (warn_logger [''file'']) ''2026-01-01T00:00:00.000Z'' ERROR ''boom''
              [(''level'', JStr ''INFO'')]) ''level'' \<noteq> JStr ''ERROR''"
  by (simp add: error_def obj_get_def Logger_write_def warn_logger_def ready_world_def ERROR_def WARN_def
      appendFileSync_def append_failure_def appended_def formatMessage_def obj_spread_def
      LogLevelNames_def Let_def)

text \<open>
  C6, amended. A call above the threshold changes nothing. A call at or below it sends
  exactly one entry to each configured destination: one console line on the channel of
  its level, and one line appended to the log file when the append succeeds (when it
  fails, the failure is reported on the console instead). The level field of the entry is
  the name of the call's level unless the metadata has a key \<^verbatim>\<open>level\<close>, and then it is the
  value the metadata gives. At threshold
  \<^verbatim>\<open>WARN\<close> an \<^verbatim>\<open>info\<close> call changes nothing, and an \<^verbatim>\<open>error\<close> call emits one entry whose level
  field is \<^verbatim>\<open>"ERROR"\<close>, again unless the metadata replaces it.
\<close>

theorem threshold_filter:
  "(level lg < lvl \<longrightarrow> Logger_write js lg ts lvl msg meta w = w)
   \<and> (lvl \<le> level lg \<longrightarrow>
        (let entry = formatMessage lg ts lvl msg meta; w' = Logger_write js lg ts lvl msg meta w in
           console w' =
             console w
             @ (if ''console'' \<in> set (outputs lg) then [(channel_of lvl, formatForConsole js entry)] else [])
             @ (if ''file'' \<in> set (outputs lg) then
                  (case append_failure w of
                     None \<Rightarrow> []
                   | Some e \<Rightarrow> [(ConsoleError, ''Failed to write to log file: '' @ e)])
                else [])
         \<and> files w' =
             (if ''file'' \<in> set (outputs lg) \<and> append_failure w = None
              then (files w)(LogFile \<mapsto> appended (files w LogFile) (formatForFile js entry @ [CHR 0x0A]))
              else files w)
         \<and> (lvl < 5 \<and> ''level'' \<notin> fst ` set meta \<longrightarrow>
               obj_get entry ''level'' = JStr (LogLevelNames ! lvl))))
   \<and> (level lg = WARN \<longrightarrow>
         info js lg ts msg meta w = w
       \<and> (let entry = formatMessage lg ts ERROR msg meta; w' = error js lg ts msg meta w in
            (''console'' \<in> set (outputs lg) \<longrightarrow>
               take (Suc (length (console w))) (console w') = console w @ [(ConsoleError, formatForConsole js entry)])
          \<and> (''file'' \<in> set (outputs lg) \<and> append_failure w = None \<longrightarrow>
               files w' LogFile = Some (appended (files w LogFile) (formatForFile js entry @ [CHR 0x0A])))
          \<and> (''level'' \<notin> fst ` set meta \<longrightarrow> obj_get entry ''level'' = JStr ''ERROR'')))
   \<and> (distinct (map fst meta) \<and> ''level'' \<in> fst ` set meta \<longrightarrow>
         obj_get (formatMessage lg ts lvl msg meta) ''level'' = obj_get meta ''level'')"
proof (intro conjI impI)
  assume "level lg < lvl"
  then show "Logger_write js lg ts lvl msg meta w = w" by (rule Logger_write_skip)
next
  assume le: "lvl \<le> level lg"
  show "let entry = formatMessage lg ts lvl msg meta; w' = Logger_write js lg ts lvl msg meta w in
           console w' =
             console w
             @ (if ''console'' \<in> set (outputs lg) then [(channel_of lvl, formatForConsole js entry)] else [])
             @ (if ''file'' \<in> set (outputs lg) then
                  (case append_failure w of
                     None \<Rightarrow> []
                   | Some e \<Rightarrow> [(ConsoleError, ''Failed to write to log file: '' @ e)])
                else [])
         \<and> files w' =
             (if ''file'' \<in> set (outputs lg) \<and> append_failure w = None
              then (files w)(LogFile \<mapsto> appended (files w LogFile) (formatForFile js entry @ [CHR 0x0A]))
              else files w)
         \<and> (lvl < 5 \<and> ''level'' \<notin> fst ` set meta \<longrightarrow>
               obj_get entry ''level'' = JStr (LogLevelNames ! lvl))"
    unfolding Let_def
    using Logger_write_console[OF le, of js ts msg meta w] Logger_write_files[OF le, of js ts msg meta w]
      formatMessage_level[of meta lvl lg ts msg]
    by simp
next
  assume "level lg = WARN"
  then show "info js lg ts msg meta w = w"
    by (simp add: info_def Logger_write_skip INFO_def WARN_def)
next
  assume w: "level lg = WARN"
  then have le: "ERROR \<le> level lg" by (simp add: ERROR_def)
  have lvl: "obj_get (formatMessage lg ts ERROR msg meta) ''level'' = JStr ''ERROR''"
    if "''level'' \<notin> fst ` set meta"
    using formatMessage_level[of meta ERROR lg ts msg] that by (simp add: ERROR_def LogLevelNames_def)
  show "let entry = formatMessage lg ts ERROR msg meta; w' = error js lg ts msg meta w in
            (''console'' \<in> set (outputs lg) \<longrightarrow>
               take (Suc (length (console w))) (console w') = console w @ [(ConsoleError, formatForConsole js entry)])
          \<and> (''file'' \<in> set (outputs lg) \<and> append_failure w = None \<longrightarrow>
               files w' LogFile = Some (appended (files w LogFile) (formatForFile js entry @ [CHR 0x0A])))
          \<and> (''level'' \<notin> fst ` set meta \<longrightarrow> obj_get entry ''level'' = JStr ''ERROR'')"
    unfolding Let_def error_def
    using Logger_write_console[OF le, of js ts msg meta w] Logger_write_files[OF le, of js ts msg meta w] lvl
    by (simp add: channel_of_def)
next
  assume "distinct (map fst meta) \<and> ''level'' \<in> fst ` set meta"
  then show "obj_get (formatMessage lg ts lvl msg meta) ''level'' = obj_get meta ''level''"
    by (simp add: formatMessage_level_meta)
qed

theorem threshold_filter_witness:
  "level (warn_logger [''console'', ''file'']) = WARN
   \<and> ''level'' \<notin> fst ` set ([] :: obj)
   \<and> append_failure ready_world = None
   \<and> info stub_host (warn_logger [''console'', ''file'']) ''t'' ''started'' [] ready_world = ready_world
   \<and> files (error stub_host (warn_logger [''console'', ''file'']) ''t'' ''boom'' [] ready_world) LogFile
       = Some (formatForFile stub_host (formatMessage (warn_logger [''console'', ''file'']) ''t'' ERROR ''boom'' []) @ [CHR 0x0A])
   \<and> obj_get (formatMessage (warn_logger [''console'', ''file'']) ''t'' ERROR ''boom'' []) ''level'' = JStr ''ERROR''"
proof -
  let ?lg = "warn_logger [''console'', ''file'']"
  have h1: "level ?lg = WARN" by (simp add: warn_logger_def)
  have h2: "''level'' \<notin> fst ` set ([] :: obj)" by simp
  have h3: "append_failure ready_world = None" by (simp add: append_failure_def ready_world_def)
  have h4: "''file'' \<in> set (outputs ?lg)" by (simp add: warn_logger_def)
  have h5: "files ready_world LogFile = None" by (simp add: ready_world_def)
  note T1 = threshold_filter[of ?lg INFO stub_host "''t''" "''started''" "[]" ready_world]
  note T2 = threshold_filter[of ?lg ERROR stub_host "''t''" "''boom''" "[]" ready_world]
  have a: "info stub_host ?lg ''t'' ''started'' [] ready_world = ready_world"
    using T1 h1 by blast
  have b: "files (error stub_host ?lg ''t'' ''boom'' [] ready_world) LogFile
       = Some (formatForFile stub_host (formatMessage ?lg ''t'' ERROR ''boom'' []) @ [CHR 0x0A])"
    using T2 h1 h3 h4 h5 by (simp add: Let_def appended_def)
  have c: "obj_get (formatMessage ?lg ''t'' ERROR ''boom'' []) ''level'' = JStr ''ERROR''"
    using T2 h1 h2 by (simp add: Let_def)
  show ?thesis using h1 h2 h3 a b c by blast
qed

subsection \<open>The level given to the constructor\<close>



section \<open>Bounded collections\<close>

lemma push_capped_latest:
  assumes "0 < cap"
  shows "push_capped cap x (drop (length hist - cap) hist) = drop (length (hist @ [x]) - cap) (hist @ [x])"
proof (cases "length hist < cap")
  case True
  then show ?thesis by (simp add: push_capped_def Let_def)
next
  case False
  then have ge: "cap \<le> length hist" by simp
  have ne: "drop (length hist - cap) hist \<noteq> []" using ge assms by simp
  have "push_capped cap x (drop (length hist - cap) hist) = tl (drop (length hist - cap) hist @ [x])"
    using ge assms by (simp add: push_capped_def Let_def)
  also have "\<dots> = tl (drop (length hist - cap) hist) @ [x]"
    using ne by simp
  also have "\<dots> = drop (Suc (length hist - cap)) hist @ [x]"
    by (simp add: drop_Suc tl_drop)
  also have "\<dots> = drop (length (hist @ [x]) - cap) (hist @ [x])"
    using ge assms by (simp add: Suc_diff_le)
  finally show ?thesis .
qed

lemma push_capped_length:
  "length xs \<le> cap \<Longrightarrow> length (push_capped cap x xs) \<le> cap"
  by (auto simp: push_capped_def Let_def)

lemma push_capped_last:
  "0 < cap \<or> xs \<noteq> [] \<Longrightarrow> push_capped cap x xs \<noteq> [] \<and> last (push_capped cap x xs) = x"
  by (cases xs) (auto simp: push_capped_def Let_def)

lemma recordMetric_ordinary:
  assumes "mon_enabled m" "name \<notin> set Object_prototype_keys"
  shows "recordMetric name v metadata m =
     Inr (m\<lparr>custom := (custom m)(name \<mapsto> push_capped (maxSamples m)
        (obj_spread [(''timestamp'', JNum (date_now m)), (''value'', v)] metadata)
        (case custom m name of None \<Rightarrow> [] | Some xs \<Rightarrow> xs))\<rparr>)"
  using assms by (cases "custom m name") (simp_all add: recordMetric_def custom_get_def Let_def)

lemma recordMetric_disabled: "\<not> mon_enabled m \<Longrightarrow> recordMetric name v metadata m = Inr m"
  by (simp add: recordMetric_def)

text \<open>Under a name that every object inherits, an enabled monitor stores nothing and throws.\<close>

lemma recordMetric_inherited:
  assumes "mon_enabled m" "name \<in> set Object_prototype_keys" "custom m name = None"
  shows "recordMetric name v metadata m = Inl TypeError"
  using assms by (simp add: recordMetric_def custom_get_def Let_def)

lemma recordMetric_fields:
  assumes "recordMetric name v metadata m = Inr m'"
  shows "mon_enabled m' = mon_enabled m" "maxSamples m' = maxSamples m"
    "perf_now m' = perf_now m" "date_now m' = date_now m" "monitor_log m' = monitor_log m"
  using assms by (auto simp: recordMetric_def Let_def split: if_splits property.splits)

lemma recordMetrics_fields:
  assumes "recordMetrics name cs m = Inr m'"
  shows "mon_enabled m' = mon_enabled m \<and> maxSamples m' = maxSamples m"
  using assms
proof (induction name cs m rule: recordMetrics.induct)
  case (1 name m)
  then show ?case by simp
next
  case (2 name now v metadata cs m)
  from "2.prems" obtain m1 where
    m1: "recordMetric name v metadata (m\<lparr>date_now := now\<rparr>) = Inr m1"
    and rest: "recordMetrics name cs m1 = Inr m'"
    by (auto split: sum.splits)
  have "mon_enabled m' = mon_enabled m1 \<and> maxSamples m' = maxSamples m1"
    using m1 rest by (rule "2.IH")
  then show ?case using recordMetric_fields(1,2)[OF m1] by simp
qed

lemma recordMetrics_series:
  assumes "mon_enabled m" "0 < maxSamples m" "name \<notin> set Object_prototype_keys"
    and "(case custom m name of None \<Rightarrow> [] | Some xs \<Rightarrow> xs) = drop (length hist - maxSamples m) hist"
    and "cs \<noteq> []"
  shows "\<exists>m'. recordMetrics name cs m = Inr m' \<and>
           custom m' name =
             Some (drop (length (hist @ map sample_of cs) - maxSamples m) (hist @ map sample_of cs))"
  using assms
proof (induction name cs m arbitrary: hist rule: recordMetrics.induct)
  case (1 name m)
  then show ?case by simp
next
  case (2 name now v metadata cs m)
  let ?m0 = "m\<lparr>date_now := now\<rparr>"
  let ?s = "sample_of (now, v, metadata)"
  define m1 where "m1 = ?m0\<lparr>custom := (custom ?m0)(name \<mapsto> push_capped (maxSamples ?m0)
        (obj_spread [(''timestamp'', JNum (date_now ?m0)), (''value'', v)] metadata)
        (case custom ?m0 name of None \<Rightarrow> [] | Some xs \<Rightarrow> xs))\<rparr>"
  have step: "recordMetric name v metadata ?m0 = Inr m1"
    unfolding m1_def using "2.prems"(1,3) by (intro recordMetric_ordinary) simp_all
  have en: "mon_enabled m1" "0 < maxSamples m1" "maxSamples m1 = maxSamples m"
    using "2.prems"(1,2) by (simp_all add: m1_def)
  have cur: "custom m1 name = Some (drop (length (hist @ [?s]) - maxSamples m) (hist @ [?s]))"
    using "2.prems"(2,4) push_capped_latest[of "maxSamples m" ?s hist]
    by (simp add: m1_def sample_of_def)
  have run: "recordMetrics name ((now, v, metadata) # cs) m = recordMetrics name cs m1"
    by (simp add: step)
  show ?case
  proof (cases "cs = []")
    case True
    then show ?thesis using cur run by simp
  next
    case False
    have "\<exists>m'. recordMetrics name cs m1 = Inr m' \<and>
           custom m' name =
             Some (drop (length ((hist @ [?s]) @ map sample_of cs) - maxSamples m1)
                    ((hist @ [?s]) @ map sample_of cs))"
      using step en(1,2) "2.prems"(3) _ False
    proof (rule "2.IH")
      show "(case custom m1 name of None \<Rightarrow> [] | Some xs \<Rightarrow> xs)
              = drop (length (hist @ [?s]) - maxSamples m1) (hist @ [?s])"
        using cur en(3) by simp
    qed
    then show ?thesis using en(3) run by simp
  qed
qed

lemma trackError_fields:
  "enabled (trackError now err context t) = enabled t"
  "maxErrors (trackError now err context t) = maxErrors t"
  by (simp_all add: trackError_def Let_def)

lemma trackErrors_fields:
  "enabled (trackErrors cs t) = enabled t"
  "maxErrors (trackErrors cs t) = maxErrors t"
  by (induction cs t rule: trackErrors.induct) (simp_all add: trackError_fields)

lemma trackError_errors:
  "enabled t \<Longrightarrow> errors (trackError now err context t)
     = push_capped (maxErrors t) (errorRecord_of now err context) (errors t)"
  by (simp add: trackError_def Let_def)

lemma trackErrors_errors:
  assumes "enabled t" "0 < maxErrors t"
    and "errors t = drop (length hist - maxErrors t) hist"
  shows "errors (trackErrors cs t) =
           drop (length (hist @ map record_of cs) - maxErrors t) (hist @ map record_of cs)"
  using assms
proof (induction cs t arbitrary: hist rule: trackErrors.induct)
  case (1 t)
  then show ?case by simp
next
  case (2 now err ctx cs t)
  let ?t1 = "trackError now err ctx t"
  let ?r = "record_of (now, err, ctx)"
  have en: "enabled ?t1" "0 < maxErrors ?t1" "maxErrors ?t1 = maxErrors t"
    using "2.prems" by (simp_all add: trackError_fields)
  have cur: "errors ?t1 = drop (length (hist @ [?r]) - maxErrors ?t1) (hist @ [?r])"
    using "2.prems" push_capped_latest[of "maxErrors t" ?r hist]
    by (simp add: trackError_errors record_of_def trackError_fields)
  have "errors (trackErrors cs ?t1) =
          drop (length ((hist @ [?r]) @ map record_of cs) - maxErrors ?t1) ((hist @ [?r]) @ map record_of cs)"
    using en(1,2) cur by (rule "2.IH")
  then show ?case using en by simp
qed

lemma recordMetrics_disabled:
  "\<not> mon_enabled m \<Longrightarrow> \<exists>m'. recordMetrics name cs m = Inr m' \<and> custom m' = custom m"
proof (induction name cs m rule: recordMetrics.induct)
  case (1 name m)
  then show ?case by simp
next
  case (2 name now v metadata cs m)
  have step: "recordMetric name v metadata (m\<lparr>date_now := now\<rparr>) = Inr (m\<lparr>date_now := now\<rparr>)"
    using "2.prems" by (simp add: recordMetric_disabled)
  have "\<exists>m'. recordMetrics name cs (m\<lparr>date_now := now\<rparr>) = Inr m' \<and> custom m' = custom (m\<lparr>date_now := now\<rparr>)"
    using step "2.prems" by (intro "2.IH") simp_all
  then show ?case using step by simp
qed

lemma trackErrors_disabled:
  "\<not> enabled t \<Longrightarrow> trackErrors cs t = t"
  by (induction cs t rule: trackErrors.induct) (simp_all add: trackError_def)

lemma num_or_pos: "0 < d \<Longrightarrow> 0 < num_or a d"
  by (simp add: num_or_def split: option.splits)

text \<open>
  C3, as stated, fails on a monitor built with \<^verbatim>\<open>enabled: false\<close>: \<^verbatim>\<open>recordMetric\<close> returns
  at once, and after three calls under a cap of 2 nothing is stored under the name.
\<close>

theorem disabled_monitor_stores_nothing:
  "recordMetrics ''render'' three_samples
      (PerformanceMonitor_new \<lparr>cfg_mon_enabled = Some False, cfg_maxSamples = Some 2\<rparr> 0 0)
     = Inr ((PerformanceMonitor_new \<lparr>cfg_mon_enabled = Some False, cfg_maxSamples = Some 2\<rparr> 0 0)
              \<lparr>date_now := 3\<rparr>)
   \<and> custom ((PerformanceMonitor_new \<lparr>cfg_mon_enabled = Some False, cfg_maxSamples = Some 2\<rparr> 0 0)
              \<lparr>date_now := 3\<rparr>) ''render'' = None
   \<and> custom ((PerformanceMonitor_new \<lparr>cfg_mon_enabled = Some False, cfg_maxSamples = Some 2\<rparr> 0 0)
              \<lparr>date_now := 3\<rparr>) ''render''
       \<noteq> Some [sample_of (2, JNum 20, []), sample_of (3, JNum 30, [])]"
  by (simp add: three_samples_def PerformanceMonitor_new_def recordMetric_def)

text \<open>
  C3, amended. Take a metric name that is not the name of a property every object inherits
  (\<^verbatim>\<open>constructor\<close>, \<^verbatim>\<open>toString\<close>, \<^verbatim>\<open>__proto__\<close> and the others of \<open>Object_prototype_keys\<close>). On a
  monitor that is enabled, every run of \<^verbatim>\<open>recordMetric\<close> calls on that name returns, and
  afterwards the stored series is the last \<^verbatim>\<open>maxSamples\<close> samples of the run in their order
  (all of them while the run is shorter), so it holds exactly \<^verbatim>\<open>maxSamples\<close> samples once the
  run has reached the cap. A monitor that is disabled stores no series, under any name.
  After any run of \<^verbatim>\<open>trackError\<close> calls the error history is never longer than
  \<^verbatim>\<open>maxErrors\<close>: on a tracker that is enabled it is the last \<^verbatim>\<open>maxErrors\<close> records of the run
  in their order, and on one that is disabled it stays empty.
\<close>

theorem bounded_collections_keep_latest:
  "(cfg_mon_enabled mc \<noteq> Some False \<and> name \<notin> set Object_prototype_keys \<longrightarrow>
      (case recordMetrics name cs (PerformanceMonitor_new mc perf date) of
         Inl thrown \<Rightarrow> False
       | Inr m \<Rightarrow>
           0 < maxSamples m
         \<and> custom m name =
             (if cs = [] then None else Some (drop (length cs - maxSamples m) (map sample_of cs)))
         \<and> (maxSamples m \<le> length cs \<longrightarrow>
               (\<exists>series. custom m name = Some series \<and> length series = maxSamples m))))
   \<and> (cfg_enabled tc \<noteq> Some False \<longrightarrow>
      (let t = trackErrors es (ErrorTracker_new tc); cap = maxErrors t in
         0 < cap
       \<and> errors t = drop (length es - cap) (map record_of es)
       \<and> length (errors t) \<le> cap))
   \<and> (cfg_mon_enabled mc = Some False \<longrightarrow>
        (case recordMetrics name cs (PerformanceMonitor_new mc perf date) of
           Inl thrown \<Rightarrow> False
         | Inr m \<Rightarrow> custom m name = None))
   \<and> (cfg_enabled tc = Some False \<longrightarrow> errors (trackErrors es (ErrorTracker_new tc)) = [])
   \<and> length (errors (trackErrors es (ErrorTracker_new tc))) \<le> maxErrors (ErrorTracker_new tc)"
proof (intro conjI impI)
  assume "cfg_mon_enabled mc \<noteq> Some False \<and> name \<notin> set Object_prototype_keys"
  then have en: "cfg_mon_enabled mc \<noteq> Some False" and ord: "name \<notin> set Object_prototype_keys"
    by simp_all
  define m0 where "m0 = PerformanceMonitor_new mc perf date"
  define cap where "cap = maxSamples m0"
  have m0: "mon_enabled m0" "0 < maxSamples m0" "custom m0 name = None"
    using en by (simp_all add: m0_def PerformanceMonitor_new_def num_or_pos)
  have "\<exists>m. recordMetrics name cs m0 = Inr m \<and>
          custom m name = (if cs = [] then None else Some (drop (length cs - cap) (map sample_of cs)))"
  proof (cases "cs = []")
    case True
    then show ?thesis using m0 by simp
  next
    case False
    then show ?thesis
      using recordMetrics_series[of m0 name "[]" cs] m0 ord by (simp add: cap_def)
  qed
  then obtain m where run: "recordMetrics name cs m0 = Inr m"
    and series: "custom m name = (if cs = [] then None else Some (drop (length cs - cap) (map sample_of cs)))"
    by blast
  have cap: "maxSamples m = cap" "0 < cap"
    using recordMetrics_fields[OF run] m0 by (simp_all add: cap_def)
  have full: "\<exists>series. custom m name = Some series \<and> length series = cap"
    if "cap \<le> length cs"
  proof -
    have "cs \<noteq> []" using that cap(2) by auto
    then show ?thesis using series that by simp
  qed
  show "case recordMetrics name cs (PerformanceMonitor_new mc perf date) of
         Inl thrown \<Rightarrow> False
       | Inr m \<Rightarrow>
           0 < maxSamples m
         \<and> custom m name =
             (if cs = [] then None else Some (drop (length cs - maxSamples m) (map sample_of cs)))
         \<and> (maxSamples m \<le> length cs \<longrightarrow>
               (\<exists>series. custom m name = Some series \<and> length series = maxSamples m))"
    unfolding m0_def[symmetric] run using cap series full by simp
next
  assume en: "cfg_enabled tc \<noteq> Some False"
  define t0 where "t0 = ErrorTracker_new tc"
  define cap where "cap = maxErrors t0"
  have t0: "enabled t0" "0 < maxErrors t0" "errors t0 = []"
    using en by (simp_all add: t0_def ErrorTracker_new_def num_or_pos)
  have cap: "maxErrors (trackErrors es t0) = cap" "0 < cap"
    using t0 by (simp_all add: trackErrors_fields cap_def)
  have errs: "errors (trackErrors es t0) = drop (length es - cap) (map record_of es)"
    using trackErrors_errors[of t0 "[]" es] t0 by (simp add: cap_def)
  have "length (errors (trackErrors es t0)) \<le> cap"
    unfolding errs by simp
  then show "let t = trackErrors es (ErrorTracker_new tc); cap = maxErrors t in
         0 < cap
       \<and> errors t = drop (length es - cap) (map record_of es)
       \<and> length (errors t) \<le> cap"
    unfolding Let_def using cap errs by (simp add: t0_def)
next
  assume dis: "cfg_mon_enabled mc = Some False"
  define m0 where "m0 = PerformanceMonitor_new mc perf date"
  have m0: "\<not> mon_enabled m0" "custom m0 name = None"
    using dis by (simp_all add: m0_def PerformanceMonitor_new_def)
  obtain m where "recordMetrics name cs m0 = Inr m" "custom m = custom m0"
    using recordMetrics_disabled[OF m0(1), of name cs] by blast
  then show "case recordMetrics name cs (PerformanceMonitor_new mc perf date) of
           Inl thrown \<Rightarrow> False
         | Inr m \<Rightarrow> custom m name = None"
    unfolding m0_def[symmetric] using m0(2) by simp
next
  assume "cfg_enabled tc = Some False"
  then show "errors (trackErrors es (ErrorTracker_new tc)) = []"
    by (simp add: trackErrors_disabled ErrorTracker_new_def)
next
  show "length (errors (trackErrors es (ErrorTracker_new tc))) \<le> maxErrors (ErrorTracker_new tc)"
  proof (cases "enabled (ErrorTracker_new tc)")
    case True
    have "errors (trackErrors es (ErrorTracker_new tc))
            = drop (length ([] @ map record_of es) - maxErrors (ErrorTracker_new tc)) ([] @ map record_of es)"
      using True by (intro trackErrors_errors) (simp_all add: ErrorTracker_new_def num_or_pos)
    then show ?thesis by simp
  next
    case False
    then show ?thesis by (simp add: trackErrors_disabled) (simp add: ErrorTracker_new_def)
  qed
qed

theorem bounded_collections_keep_latest_witness:
  "cfg_mon_enabled \<lparr>cfg_mon_enabled = None, cfg_maxSamples = Some 2\<rparr> \<noteq> Some False
   \<and> ''render'' \<notin> set Object_prototype_keys
   \<and> (case recordMetrics ''render'' three_samples
            (PerformanceMonitor_new \<lparr>cfg_mon_enabled = None, cfg_maxSamples = Some 2\<rparr> 0 0) of
         Inl thrown \<Rightarrow> False
       | Inr m \<Rightarrow> custom m ''render''
           = Some [[(''timestamp'', JNum 2), (''value'', JNum 20)], [(''timestamp'', JNum 3), (''value'', JNum 30)]])
   \<and> cfg_enabled \<lparr>cfg_enabled = Some True, cfg_maxErrors = Some 2\<rparr> \<noteq> Some False
   \<and> map (\<lambda>r. obj_get r ''message'')
         (errors (trackErrors three_errors (ErrorTracker_new \<lparr>cfg_enabled = Some True, cfg_maxErrors = Some 2\<rparr>)))
       = [JStr ''timeout'', JStr ''disk full'']"
proof -
  let ?mc = "\<lparr>cfg_mon_enabled = None, cfg_maxSamples = Some 2\<rparr>"
  let ?tc = "\<lparr>cfg_enabled = Some True, cfg_maxErrors = Some 2\<rparr>"
  have h1: "cfg_mon_enabled ?mc \<noteq> Some False" by simp
  have h2: "cfg_enabled ?tc \<noteq> Some False" by simp
  have h3: "''render'' \<notin> set Object_prototype_keys" by (simp add: Object_prototype_keys_def)
  have c2: "maxErrors (trackErrors three_errors (ErrorTracker_new ?tc)) = 2"
    by (simp add: trackErrors_fields ErrorTracker_new_def num_or_def)
  note T = bounded_collections_keep_latest[of ?mc "''render''" three_samples 0 0 ?tc three_errors,
      unfolded Let_def c2]
  obtain m where run: "recordMetrics ''render'' three_samples (PerformanceMonitor_new ?mc 0 0) = Inr m"
    and series: "custom m ''render'' = Some (drop (length three_samples - maxSamples m) (map sample_of three_samples))"
    using T h1 h3 by (cases "recordMetrics ''render'' three_samples (PerformanceMonitor_new ?mc 0 0)")
      (auto simp: three_samples_def)
  have c1: "maxSamples m = 2"
    using recordMetrics_fields[OF run] by (simp add: PerformanceMonitor_new_def num_or_def)
  have a: "custom m ''render''
       = Some [[(''timestamp'', JNum 2), (''value'', JNum 20)], [(''timestamp'', JNum 3), (''value'', JNum 30)]]"
    using series by (simp add: c1 three_samples_def sample_of_def obj_spread_def)
  have b: "map (\<lambda>r. obj_get r ''message'')
         (errors (trackErrors three_errors (ErrorTracker_new ?tc))) = [JStr ''timeout'', JStr ''disk full'']"
    using T h2
    by (simp add: three_errors_def record_of_def errorRecord_of_def obj_spread_def obj_get_def
        js_or_def falsy_def)
  show ?thesis using h1 h2 h3 a b by (simp add: run)
qed

section \<open>Performance monitor: timing a unit of work\<close>

lemma recordMetric_returns:
  "name \<notin> set Object_prototype_keys \<or> \<not> mon_enabled m \<Longrightarrow> \<exists>m'. recordMetric name v metadata m = Inr m'"
  by (cases "mon_enabled m") (auto simp: recordMetric_ordinary recordMetric_disabled)

lemma measure_result:
  assumes "name \<notin> set Object_prototype_keys \<or> \<not> mon_enabled (snd (fn m))"
  shows "fst (measureSync js name fn m) = (case fst (fn m) of Inl e \<Rightarrow> Inl (Original e) | Inr x \<Rightarrow> Inr x)"
proof -
  obtain out m1 where run: "fn m = (out, m1)" by (cases "fn m")
  have ret: "\<exists>m'. recordMetric name v metadata m1 = Inr m'" for v metadata
    using assms run by (intro recordMetric_returns) simp
  show ?thesis
  proof (cases out)
    case (Inl e)
    obtain m2 where "recordMetric name (JNum (perf_now m1 - perf_now m)) [(''error'', JBool True)] m1 = Inr m2"
      using ret by blast
    then show ?thesis using run Inl by (simp add: measureSync_def measure_catch_def Let_def)
  next
    case (Inr x)
    obtain m2 where "recordMetric name (JNum (perf_now m1 - perf_now m)) [] m1 = Inr m2"
      using ret by blast
    then show ?thesis using run Inr by (simp add: measureSync_def Let_def)
  qed
qed

lemma measureAsync_eq: "measureAsync js name fn m = measureSync js name fn m"
  by (simp add: measureAsync_def measureSync_def)

lemma slow_warning_custom: "custom (slow_warning js name d m) = custom m"
  by (simp add: slow_warning_def)

lemma latest_sample_recordMetric:
  assumes "mon_enabled m" "0 < maxSamples m" "name \<notin> set Object_prototype_keys"
  shows "\<exists>m'. recordMetric name v metadata m = Inr m' \<and>
           latest_sample m' name
             = Some (obj_spread [(''timestamp'', JNum (date_now m)), (''value'', v)] metadata)"
proof -
  let ?s = "obj_spread [(''timestamp'', JNum (date_now m)), (''value'', v)] metadata"
  let ?xs = "case custom m name of None \<Rightarrow> [] | Some xs \<Rightarrow> xs"
  have "push_capped (maxSamples m) ?s ?xs \<noteq> [] \<and> last (push_capped (maxSamples m) ?s ?xs) = ?s"
    using assms(2) by (intro push_capped_last) simp
  then show ?thesis
    using assms(1,3) by (simp add: latest_sample_def recordMetric_ordinary)
qed

lemma measure_latest_sample:
  assumes "fn m = (out, m1)" "mon_enabled m1" "0 < maxSamples m1" "name \<notin> set Object_prototype_keys"
  shows "latest_sample (snd (measureSync js name fn m)) name =
           Some ([(''timestamp'', JNum (date_now m1)), (''value'', JNum (perf_now m1 - perf_now m))]
                 @ (case out of Inl e \<Rightarrow> [(''error'', JBool True)] | Inr r \<Rightarrow> []))"
proof (cases out)
  case (Inl e)
  obtain m2 where "recordMetric name (JNum (perf_now m1 - perf_now m)) [(''error'', JBool True)] m1 = Inr m2"
    "latest_sample m2 name = Some (obj_spread [(''timestamp'', JNum (date_now m1)),
         (''value'', JNum (perf_now m1 - perf_now m))] [(''error'', JBool True)])"
    using latest_sample_recordMetric[OF assms(2,3,4)] by blast
  then show ?thesis
    using Inl assms(1) by (simp add: measureSync_def measure_catch_def Let_def obj_spread_def)
next
  case (Inr r)
  have warn: "latest_sample (slow_warning js name d m') name = latest_sample m' name" for d m'
    by (simp add: latest_sample_def slow_warning_custom)
  obtain m2 where "recordMetric name (JNum (perf_now m1 - perf_now m)) [] m1 = Inr m2"
    "latest_sample m2 name = Some (obj_spread [(''timestamp'', JNum (date_now m1)),
         (''value'', JNum (perf_now m1 - perf_now m))] [])"
    using latest_sample_recordMetric[OF assms(2,3,4)] by blast
  then show ?thesis
    using Inr assms(1) by (simp add: measureSync_def Let_def obj_spread_def warn)
qed

lemma measure_disabled:
  "\<not> mon_enabled (snd (fn m)) \<Longrightarrow> custom (snd (measureSync js name fn m)) = custom (snd (fn m))"
  by (cases "fn m")
    (auto simp: measureSync_def measure_catch_def Let_def recordMetric_def slow_warning_def split: sum.splits)

text \<open>
  Under a name that every object inherits, on a monitor that is enabled, the wrapper ends
  with the exception of \<^verbatim>\<open>recordMetric\<close>, whatever \<open>fn\<close> returned or threw.
\<close>

lemma measure_inherited_name:
  assumes "fn m = (out, m1)" "mon_enabled m1" "name \<in> set Object_prototype_keys" "custom m1 name = None"
  shows "measureSync js name fn m = (Inl (Internal TypeError), m1)"
  using assms(1) recordMetric_inherited[OF assms(2,3,4)]
  by (cases out) (simp_all add: measureSync_def measure_catch_def Let_def)

text \<open>
  C4, as stated, fails on a monitor built with \<^verbatim>\<open>enabled: false\<close>: the failure of \<open>fn\<close> is
  raised again, but no sample is recorded under the name.
\<close>

theorem disabled_monitor_measures_nothing:
  "measureSync stub_host ''op'' failing_fn
      (PerformanceMonitor_new \<lparr>cfg_mon_enabled = Some False, cfg_maxSamples = None\<rparr> 0 0)
     = (Inl (Original ''boom''),
        (PerformanceMonitor_new \<lparr>cfg_mon_enabled = Some False, cfg_maxSamples = None\<rparr> 0 0)\<lparr>perf_now := 5\<rparr>)
   \<and> custom (snd (measureSync stub_host ''op'' failing_fn
        (PerformanceMonitor_new \<lparr>cfg_mon_enabled = Some False, cfg_maxSamples = None\<rparr> 0 0))) ''op'' = None
   \<and> latest_sample (snd (measureSync stub_host ''op'' failing_fn
        (PerformanceMonitor_new \<lparr>cfg_mon_enabled = Some False, cfg_maxSamples = None\<rparr> 0 0))) ''op'' = None"
  by (simp add: measureSync_def measure_catch_def failing_fn_def PerformanceMonitor_new_def
      recordMetric_def Let_def latest_sample_def)

text \<open>
  C4, amended. Take a name that is not the name of a property every object inherits
  (\<^verbatim>\<open>constructor\<close>, \<^verbatim>\<open>toString\<close>, \<^verbatim>\<open>__proto__\<close> and the others of \<open>Object_prototype_keys\<close>). For
  every \<open>fn\<close>, \<^verbatim>\<open>measure\<close> and \<^verbatim>\<open>measureAsync\<close> end as \<open>fn\<close> does: they raise again the value
  \<open>fn\<close> threw (rejected with), unchanged, or return the result of \<open>fn\<close>, unchanged. When the
  monitor is enabled (and its cap positive) as \<open>fn\<close> leaves it, the sample stored last under
  the name is the one of this call: its value is the time \<open>fn\<close> took, it carries
  \<^verbatim>\<open>error: true\<close> when \<open>fn\<close> failed and has no error field when \<open>fn\<close> succeeded. The duration
  is not negative when the performance clock did not run backwards. When the monitor is
  disabled, no sample is recorded.
\<close>

theorem measure_records_and_reraises:
  assumes ordinary: "name \<notin> set Object_prototype_keys"
  shows "fst (measureSync js name fn m) = (case fst (fn m) of Inl e \<Rightarrow> Inl (Original e) | Inr x \<Rightarrow> Inr x)
   \<and> fst (measureAsync js name fn m) = (case fst (fn m) of Inl e \<Rightarrow> Inl (Original e) | Inr x \<Rightarrow> Inr x)
   \<and> (mon_enabled (snd (fn m)) \<and> 0 < maxSamples (snd (fn m)) \<longrightarrow>
        (let sample =
               [(''timestamp'', JNum (date_now (snd (fn m)))),
                (''value'', JNum (perf_now (snd (fn m)) - perf_now m))]
               @ (case fst (fn m) of Inl e \<Rightarrow> [(''error'', JBool True)] | Inr r \<Rightarrow> [])
         in latest_sample (snd (measureSync js name fn m)) name = Some sample
          \<and> latest_sample (snd (measureAsync js name fn m)) name = Some sample))
   \<and> (perf_now m \<le> perf_now (snd (fn m)) \<longrightarrow> 0 \<le> perf_now (snd (fn m)) - perf_now m)
   \<and> (\<not> mon_enabled (snd (fn m)) \<longrightarrow>
        custom (snd (measureSync js name fn m)) = custom (snd (fn m))
      \<and> custom (snd (measureAsync js name fn m)) = custom (snd (fn m)))"
proof -
  obtain out m1 where run: "fn m = (out, m1)" by (cases "fn m")
  have res: "fst (measureSync js name fn m) = (case fst (fn m) of Inl e \<Rightarrow> Inl (Original e) | Inr x \<Rightarrow> Inr x)"
    using ordinary by (intro measure_result) simp
  have "latest_sample (snd (measureSync js name fn m)) name =
           Some ([(''timestamp'', JNum (date_now m1)), (''value'', JNum (perf_now m1 - perf_now m))]
                 @ (case out of Inl e \<Rightarrow> [(''error'', JBool True)] | Inr r \<Rightarrow> []))"
    if "mon_enabled m1" "0 < maxSamples m1"
    using run that ordinary by (rule measure_latest_sample)
  then show ?thesis
    using measure_disabled[of fn m js name] res
    by (simp add: measureAsync_eq run Let_def)
qed

theorem measure_records_and_reraises_witness:
  "''op'' \<notin> set Object_prototype_keys \<and> ''load'' \<notin> set Object_prototype_keys
   \<and> mon_enabled (snd (failing_fn (PerformanceMonitor_new \<lparr>cfg_mon_enabled = None, cfg_maxSamples = None\<rparr> 0 7)))
   \<and> fst (measureSync stub_host ''op'' failing_fn
            (PerformanceMonitor_new \<lparr>cfg_mon_enabled = None, cfg_maxSamples = None\<rparr> 0 7))
       = Inl (Original ''boom'')
   \<and> latest_sample (snd (measureSync stub_host ''op'' failing_fn
            (PerformanceMonitor_new \<lparr>cfg_mon_enabled = None, cfg_maxSamples = None\<rparr> 0 7))) ''op''
       = Some [(''timestamp'', JNum 7), (''value'', JNum 5), (''error'', JBool True)]
   \<and> fst (measureAsync stub_host ''load'' returning_fn
            (PerformanceMonitor_new \<lparr>cfg_mon_enabled = None, cfg_maxSamples = None\<rparr> 0 7)) = Inr 42
   \<and> latest_sample (snd (measureAsync stub_host ''load'' returning_fn
            (PerformanceMonitor_new \<lparr>cfg_mon_enabled = None, cfg_maxSamples = None\<rparr> 0 7))) ''load''
       = Some [(''timestamp'', JNum 7), (''value'', JNum 150)]"
proof -
  let ?m = "PerformanceMonitor_new \<lparr>cfg_mon_enabled = None, cfg_maxSamples = None\<rparr> 0 7"
  have o1: "''op'' \<notin> set Object_prototype_keys" by (simp add: Object_prototype_keys_def)
  have o2: "''load'' \<notin> set Object_prototype_keys" by (simp add: Object_prototype_keys_def)
  have f: "failing_fn ?m = (Inl ''boom'', ?m\<lparr>perf_now := 5\<rparr>)"
    by (simp add: failing_fn_def PerformanceMonitor_new_def)
  have r: "returning_fn ?m = (Inr 42, ?m\<lparr>perf_now := 150\<rparr>)"
    by (simp add: returning_fn_def PerformanceMonitor_new_def)
  have en: "mon_enabled ?m" "0 < maxSamples ?m" "date_now ?m = 7" "perf_now ?m = 0"
    by (simp_all add: PerformanceMonitor_new_def num_or_def)
  note T1 = measure_records_and_reraises[OF o1, of stub_host failing_fn ?m, unfolded f Let_def]
  note T2 = measure_records_and_reraises[OF o2, of stub_host returning_fn ?m, unfolded r Let_def]
  have a: "fst (measureSync stub_host ''op'' failing_fn ?m) = Inl (Original ''boom'')"
    using T1 by simp
  have b: "latest_sample (snd (measureSync stub_host ''op'' failing_fn ?m)) ''op''
       = Some [(''timestamp'', JNum 7), (''value'', JNum 5), (''error'', JBool True)]"
    using T1 en by simp
  have c: "fst (measureAsync stub_host ''load'' returning_fn ?m) = Inr 42"
    using T2 by simp
  have d: "latest_sample (snd (measureAsync stub_host ''load'' returning_fn ?m)) ''load''
       = Some [(''timestamp'', JNum 7), (''value'', JNum 150)]"
    using T2 en by simp
  have e: "mon_enabled (snd (failing_fn ?m))" using f en by simp
  show ?thesis using o1 o2 a b c d e by blast
qed

section \<open>Performance monitor: statistics\<close>

lemma floor_half: "nat \<lfloor>real n / 2\<rfloor> = n div 2"
proof -
  have "\<lfloor>real n / real 2\<rfloor> = int (n div 2)" by (rule floor_divide_of_nat_eq)
  then show ?thesis by simp
qed

lemma floor_percent:
  "nat \<lfloor>real n * (real p / 100)\<rfloor> = n * p div 100"
proof -
  have "real n * (real p / 100) = real (n * p) / real 100" by simp
  then have "\<lfloor>real n * (real p / 100)\<rfloor> = int (n * p div 100)"
    by (simp only: floor_divide_of_nat_eq)
  then show ?thesis by simp
qed

lemma floor_pcts:
  "nat \<lfloor>real n * 0.5\<rfloor> = n div 2"
  "nat \<lfloor>real n * 0.95\<rfloor> = n * 95 div 100"
  "nat \<lfloor>real n * 0.99\<rfloor> = n * 99 div 100"
  using floor_half[of n] floor_percent[of n 95] floor_percent[of n 99] by simp_all

lemma pct_index_less: "0 < n \<Longrightarrow> p < 100 \<Longrightarrow> n * p div 100 < (n::nat)"
proof -
  assume "0 < n" "p < 100"
  then have "n * p < n * 100" by simp
  then show ?thesis by (simp add: less_mult_imp_div_less mult.commute)
qed

lemma calculateStats_nonempty:
  assumes "ss \<noteq> []"
  shows "calculateStats (Some ss) =
     Some \<lparr> min_stat = Min (set (sample_values ss)),
            max_stat = Max (set (sample_values ss)),
            avg = sum_list (sample_values ss) / real (length ss),
            median = sort (sample_values ss) ! (length ss div 2),
            p95 = sort (sample_values ss) ! (length ss * 95 div 100),
            p99 = sort (sample_values ss) ! (length ss * 99 div 100),
            count_stat = length ss \<rparr>"
proof -
  have len: "length (sort (sample_values ss)) = length ss"
    by (simp add: sample_values_def)
  have ne: "length ss \<noteq> 0" using assms by simp
  show ?thesis
    unfolding calculateStats_def Let_def len floor_half floor_pcts
    using ne by (simp add: sample_values_def)
qed

text \<open>
  C5. \<^verbatim>\<open>calculateStats\<close> returns \<^verbatim>\<open>null\<close> for an absent and for an empty series. For a
  series of \<open>n > 0\<close> samples, the median, p95 and p99 are the elements of the ascending
  sort of the values at the indices \<open>floor (n * 0.5)\<close>, \<open>floor (n * 0.95)\<close> and
  \<open>floor (n * 0.99)\<close>, each of which is below \<open>n\<close>. For a single sample of value \<open>v\<close>, all
  of min, max, avg, median, p95 and p99 are \<open>v\<close>, and the count is 1.
\<close>

theorem calculateStats_percentiles:
  "calculateStats None = None
   \<and> calculateStats (Some []) = None
   \<and> (ss \<noteq> [] \<longrightarrow>
        (\<exists>st. calculateStats (Some ss) = Some st
           \<and> (let values = sample_values ss; ascending = sort values; n = length ss in
                sorted ascending \<and> mset ascending = mset values \<and> length ascending = n
              \<and> median st = ascending ! nat \<lfloor>real n * 0.5\<rfloor> \<and> nat \<lfloor>real n * 0.5\<rfloor> < n
              \<and> p95 st = ascending ! nat \<lfloor>real n * 0.95\<rfloor> \<and> nat \<lfloor>real n * 0.95\<rfloor> < n
              \<and> p99 st = ascending ! nat \<lfloor>real n * 0.99\<rfloor> \<and> nat \<lfloor>real n * 0.99\<rfloor> < n
              \<and> count_stat st = n)))
   \<and> (obj_get s ''value'' = JNum v \<longrightarrow>
        calculateStats (Some [s]) =
          Some \<lparr>min_stat = v, max_stat = v, avg = v, median = v, p95 = v, p99 = v, count_stat = 1\<rparr>)"
proof (intro conjI impI)
  show "calculateStats None = None" by (simp add: calculateStats_def)
  show "calculateStats (Some []) = None" by (simp add: calculateStats_def)
next
  assume ne: "ss \<noteq> []"
  then have n: "0 < length ss" by simp
  have idx: "length ss div 2 < length ss" "length ss * 95 div 100 < length ss"
    "length ss * 99 div 100 < length ss"
    using n pct_index_less[of "length ss" 95] pct_index_less[of "length ss" 99] by simp_all
  show "\<exists>st. calculateStats (Some ss) = Some st
           \<and> (let values = sample_values ss; ascending = sort values; n = length ss in
                sorted ascending \<and> mset ascending = mset values \<and> length ascending = n
              \<and> median st = ascending ! nat \<lfloor>real n * 0.5\<rfloor> \<and> nat \<lfloor>real n * 0.5\<rfloor> < n
              \<and> p95 st = ascending ! nat \<lfloor>real n * 0.95\<rfloor> \<and> nat \<lfloor>real n * 0.95\<rfloor> < n
              \<and> p99 st = ascending ! nat \<lfloor>real n * 0.99\<rfloor> \<and> nat \<lfloor>real n * 0.99\<rfloor> < n
              \<and> count_stat st = n)"
    unfolding Let_def floor_pcts
    using calculateStats_nonempty[OF ne] idx
    by (simp add: sample_values_def)
next
  assume "obj_get s ''value'' = JNum v"
  then show "calculateStats (Some [s]) =
          Some \<lparr>min_stat = v, max_stat = v, avg = v, median = v, p95 = v, p99 = v, count_stat = 1\<rparr>"
    by (simp add: calculateStats_nonempty sample_values_def num_of_def)
qed

theorem calculateStats_percentiles_witness:
  "stored_samples \<noteq> []
   \<and> (\<exists>st. calculateStats (Some stored_samples) = Some st
          \<and> median st = 20 \<and> p95 st = 30 \<and> p99 st = 30 \<and> count_stat st = 3)
   \<and> obj_get [(''timestamp'', JNum 1), (''value'', JNum 16.5)] ''value'' = JNum 16.5
   \<and> calculateStats (Some [[(''timestamp'', JNum 1), (''value'', JNum 16.5)]]) =
       Some \<lparr>min_stat = 16.5, max_stat = 16.5, avg = 16.5, median = 16.5, p95 = 16.5, p99 = 16.5,
             count_stat = 1\<rparr>"
proof -
  have h1: "stored_samples \<noteq> []" by (simp add: stored_samples_def)
  have h2: "obj_get [(''timestamp'', JNum 1), (''value'', JNum 16.5)] ''value'' = JNum 16.5"
    by (simp add: obj_get_def)
  have vals: "sort (sample_values stored_samples) = [10, 20, 30]" "length stored_samples = 3"
    by (simp_all add: stored_samples_def sample_values_def obj_get_def num_of_def)
  note T = calculateStats_percentiles[of stored_samples "[(''timestamp'', JNum 1), (''value'', JNum 16.5)]" "16.5",
      unfolded Let_def floor_pcts vals]
  have a: "\<exists>st. calculateStats (Some stored_samples) = Some st
          \<and> median st = 20 \<and> p95 st = 30 \<and> p99 st = 30 \<and> count_stat st = 3"
    using T h1 by auto
  have b: "calculateStats (Some [[(''timestamp'', JNum 1), (''value'', JNum 16.5)]]) =
       Some \<lparr>min_stat = 16.5, max_stat = 16.5, avg = 16.5, median = 16.5, p95 = 16.5, p99 = 16.5,
             count_stat = 1\<rparr>"
    using T h2 by blast
  show ?thesis using h1 h2 a b by blast
qed

section \<open>Error tracker: counts and summary\<close>

lemma first_occurrences_snoc:
  "first_occurrences (xs @ [x]) = (if x \<in> set xs then first_occurrences xs else first_occurrences xs @ [x])"
  by (simp add: first_occurrences_def)

lemma first_occurrences_props:
  "distinct (first_occurrences xs)" "set (first_occurrences xs) = set xs"
  by (simp_all add: first_occurrences_def)

lemma count_of_map:
  "count_of (map (\<lambda>k. (k, f k)) ks) k0 = (if k0 \<in> set ks then f k0 else 0)"
  by (induction ks) (auto simp: count_of_def)

lemma obj_set_fresh:
  "k0 \<notin> set ks \<Longrightarrow> obj_set k0 v (map (\<lambda>k. (k, f k)) ks) = map (\<lambda>k. (k, f k)) ks @ [(k0, v)]"
  by (induction ks) auto

lemma obj_set_present:
  "k0 \<in> set ks \<Longrightarrow> distinct ks \<Longrightarrow>
   obj_set k0 v (map (\<lambda>k. (k, f k)) ks) = map (\<lambda>k. (k, if k = k0 then v else f k)) ks"
proof (induction ks)
  case Nil
  then show ?case by simp
next
  case (Cons a ks)
  show ?case
  proof (cases "a = k0")
    case True
    then have "k0 \<notin> set ks" using Cons.prems by simp
    then have "map (\<lambda>k. (k, if k = k0 then v else f k)) ks = map (\<lambda>k. (k, f k)) ks"
      by (intro map_cong) auto
    then show ?thesis using True by simp
  next
    case False
    then show ?thesis using Cons by simp
  qed
qed

lemma counts_step:
  assumes "counts = map (\<lambda>k. (k, count_list hist k)) (first_occurrences hist)"
  shows "obj_set k0 (count_of counts k0 + 1) counts
           = map (\<lambda>k. (k, count_list (hist @ [k0]) k)) (first_occurrences (hist @ [k0]))"
proof (cases "k0 \<in> set hist")
  case True
  then have mem: "k0 \<in> set (first_occurrences hist)" by (simp add: first_occurrences_props)
  have "obj_set k0 (count_of counts k0 + 1) counts
          = map (\<lambda>k. (k, if k = k0 then count_list hist k0 + 1 else count_list hist k)) (first_occurrences hist)"
    unfolding assms using mem
    by (simp add: obj_set_present first_occurrences_props count_of_map)
  also have "\<dots> = map (\<lambda>k. (k, count_list (hist @ [k0]) k)) (first_occurrences hist)"
    by (intro map_cong) auto
  finally show ?thesis using True by (simp add: first_occurrences_snoc)
next
  case False
  then have nmem: "k0 \<notin> set (first_occurrences hist)" by (simp add: first_occurrences_props)
  have zero: "count_list hist k0 = 0" using False by (simp add: count_list_0_iff)
  have "obj_set k0 (count_of counts k0 + 1) counts
          = map (\<lambda>k. (k, count_list hist k)) (first_occurrences hist) @ [(k0, 1)]"
    unfolding assms using nmem by (simp add: obj_set_fresh count_of_map)
  also have "map (\<lambda>k. (k, count_list hist k)) (first_occurrences hist)
          = map (\<lambda>k. (k, count_list (hist @ [k0]) k)) (first_occurrences hist)"
    using nmem by (intro map_cong) auto
  finally show ?thesis using False zero by (simp add: first_occurrences_snoc)
qed

lemma trackError_counts:
  "enabled t \<Longrightarrow> errorCounts (trackError now err ctx t)
     = obj_set (call_key (now, err, ctx))
         (count_of (errorCounts t) (call_key (now, err, ctx)) + 1) (errorCounts t)"
  by (simp add: trackError_def Let_def call_key_def record_of_def)

lemma trackErrors_counts:
  assumes "enabled t"
    and "errorCounts t = map (\<lambda>k. (k, count_list hist k)) (first_occurrences hist)"
  shows "errorCounts (trackErrors cs t)
           = map (\<lambda>k. (k, count_list (hist @ map call_key cs) k)) (first_occurrences (hist @ map call_key cs))"
  using assms
proof (induction cs t arbitrary: hist rule: trackErrors.induct)
  case (1 t)
  then show ?case by simp
next
  case (2 now err ctx cs t)
  let ?t1 = "trackError now err ctx t"
  let ?k = "call_key (now, err, ctx)"
  have en: "enabled ?t1" using "2.prems"(1) by (simp add: trackError_fields)
  have cur: "errorCounts ?t1 = map (\<lambda>k. (k, count_list (hist @ [?k]) k)) (first_occurrences (hist @ [?k]))"
    using "2.prems" counts_step[of "errorCounts t" hist ?k] by (simp add: trackError_counts)
  have "errorCounts (trackErrors cs ?t1)
           = map (\<lambda>k. (k, count_list ((hist @ [?k]) @ map call_key cs) k))
               (first_occurrences ((hist @ [?k]) @ map call_key cs))"
    using en cur by (rule "2.IH")
  then show ?case by simp
qed

lemma ranked_descending:
  "sorted_wrt (\<lambda>a b. snd b \<le> snd a) (sort_key (\<lambda>e. - int (snd e)) (m :: (jsval \<times> nat) list))"
proof -
  have "sorted (map (\<lambda>e. - int (snd e)) (sort_key (\<lambda>e. - int (snd e)) m))"
    by (rule sorted_sort_key)
  then show ?thesis by (simp add: sorted_map)
qed


text \<open>
  C8, as stated, fails on a tracker built with \<^verbatim>\<open>enabled: false\<close>: after two calls with the
  message \<^verbatim>\<open>disk full\<close> (and one with another) nothing is counted, and \<^verbatim>\<open>topErrors\<close> is
  empty.
\<close>

theorem disabled_tracker_counts_nothing:
  "errorCounts (trackErrors three_errors (ErrorTracker_new \<lparr>cfg_enabled = Some False, cfg_maxErrors = None\<rparr>)) = []
   \<and> count_of (errorCounts (trackErrors three_errors
         (ErrorTracker_new \<lparr>cfg_enabled = Some False, cfg_maxErrors = None\<rparr>))) (JStr ''disk full'') \<noteq> 2
   \<and> topErrors (getErrorSummary
         (trackErrors three_errors (ErrorTracker_new \<lparr>cfg_enabled = Some False, cfg_maxErrors = None\<rparr>))) = []"
  by (simp add: three_errors_def ErrorTracker_new_def trackError_def getErrorSummary_def sorted_counts_def
      count_of_def)

text \<open>
  C8, amended. For every tracker, \<^verbatim>\<open>getErrorSummary\<close> returns the number of stored records,
  the last 10 of them in order, and as \<^verbatim>\<open>topErrors\<close> the first 5 entries of the ranking of
  \<^verbatim>\<open>errorCounts\<close>: the ranking holds the same entries by falling count, and entries of equal
  count keep the order they have in \<^verbatim>\<open>errorCounts\<close>. On a tracker that is enabled, after any
  run of \<^verbatim>\<open>trackError\<close> calls since construction, \<^verbatim>\<open>errorCounts\<close> lists the messages in the
  order of their first occurrence, each with the number of calls that had it; so a message
  tracked \<open>N\<close> times has count \<open>N\<close>, and with at most 5 distinct messages it is in
  \<^verbatim>\<open>topErrors\<close> with count \<open>N\<close>. On a tracker that is disabled, \<^verbatim>\<open>errorCounts\<close> and
  \<^verbatim>\<open>topErrors\<close> stay empty.
\<close>

theorem error_summary_ranks_messages:
  "(let s = getErrorSummary t; ranked = sort_key (\<lambda>e. - int (snd e)) (errorCounts t) in
      totalErrors s = length (errors t)
    \<and> recentErrors s = drop (length (errors t) - 10) (errors t)
    \<and> length (recentErrors s) \<le> 10
    \<and> topErrors s = map (\<lambda>(m, c). [(''message'', m), (''count'', JNum (real c))]) (take 5 ranked)
    \<and> length (topErrors s) \<le> 5
    \<and> sorted_wrt (\<lambda>a b. snd b \<le> snd a) ranked
    \<and> mset ranked = mset (errorCounts t)
    \<and> (\<forall>c. filter (\<lambda>e. snd e = c) ranked = filter (\<lambda>e. snd e = c) (errorCounts t)))
   \<and> (cfg_enabled tc \<noteq> Some False \<longrightarrow>
        (let t' = trackErrors cs (ErrorTracker_new tc); keys = map call_key cs in
           errorCounts t' = map (\<lambda>k. (k, count_list keys k)) (first_occurrences keys)
         \<and> (\<forall>k. count_of (errorCounts t') k = count_list keys k)
         \<and> (\<forall>k. k \<in> set keys \<and> length (first_occurrences keys) \<le> 5 \<longrightarrow>
                [(''message'', k), (''count'', JNum (real (count_list keys k)))]
                  \<in> set (topErrors (getErrorSummary t')))))
   \<and> (cfg_enabled tc = Some False \<longrightarrow>
        errorCounts (trackErrors cs (ErrorTracker_new tc)) = []
      \<and> topErrors (getErrorSummary (trackErrors cs (ErrorTracker_new tc))) = [])"
proof (intro conjI impI)
  define ranked where "ranked = sort_key (\<lambda>e. - int (snd e)) (errorCounts t)"
  have stable: "filter (\<lambda>e. snd e = c) ranked = filter (\<lambda>e. snd e = c) (errorCounts t)" for c
  proof -
    have "filter (\<lambda>e. - int (snd e) = - int c) ranked = filter (\<lambda>e. - int (snd e) = - int c) (errorCounts t)"
      unfolding ranked_def by (rule sort_key_stable)
    then show ?thesis by simp
  qed
  show "let s = getErrorSummary t; ranked = sort_key (\<lambda>e. - int (snd e)) (errorCounts t) in
      totalErrors s = length (errors t)
    \<and> recentErrors s = drop (length (errors t) - 10) (errors t)
    \<and> length (recentErrors s) \<le> 10
    \<and> topErrors s = map (\<lambda>(m, c). [(''message'', m), (''count'', JNum (real c))]) (take 5 ranked)
    \<and> length (topErrors s) \<le> 5
    \<and> sorted_wrt (\<lambda>a b. snd b \<le> snd a) ranked
    \<and> mset ranked = mset (errorCounts t)
    \<and> (\<forall>c. filter (\<lambda>e. snd e = c) ranked = filter (\<lambda>e. snd e = c) (errorCounts t))"
    unfolding Let_def
    using stable ranked_descending[of "errorCounts t"]
    by (simp add: getErrorSummary_def sorted_counts_def ranked_def)
next
  assume en: "cfg_enabled tc \<noteq> Some False"
  define t0 where "t0 = ErrorTracker_new tc"
  define keys where "keys = map call_key cs"
  define t' where "t' = trackErrors cs t0"
  have t0: "enabled t0" "errorCounts t0 = map (\<lambda>k. (k, count_list [] k)) (first_occurrences [])"
    using en by (simp_all add: t0_def ErrorTracker_new_def first_occurrences_def)
  have counts: "errorCounts t' = map (\<lambda>k. (k, count_list keys k)) (first_occurrences keys)"
    using trackErrors_counts[OF t0, of cs] by (simp add: t'_def keys_def)
  have lookup: "count_of (errorCounts t') k = count_list keys k" for k
    unfolding counts by (simp add: count_of_map first_occurrences_props count_list_0_iff)
  have top: "[(''message'', k), (''count'', JNum (real (count_list keys k)))]
                  \<in> set (topErrors (getErrorSummary t'))"
    if "k \<in> set keys \<and> length (first_occurrences keys) \<le> 5" for k
  proof -
    have len: "length (sort_key (\<lambda>e. - int (snd e)) (errorCounts t')) \<le> 5"
      using that by (simp add: counts)
    have "(k, count_list keys k) \<in> set (errorCounts t')"
      using that by (auto simp: counts first_occurrences_props)
    then have "(k, count_list keys k) \<in> set (sorted_counts (errorCounts t'))"
      using len by (simp add: sorted_counts_def)
    then have "(\<lambda>(m, c). [(''message'', m), (''count'', JNum (real c))]) (k, count_list keys k)
                 \<in> set (topErrors (getErrorSummary t'))"
      unfolding getErrorSummary_def by (simp only: summary.simps set_map) (rule imageI)
    then show ?thesis by simp
  qed
  show "let t' = trackErrors cs (ErrorTracker_new tc); keys = map call_key cs in
           errorCounts t' = map (\<lambda>k. (k, count_list keys k)) (first_occurrences keys)
         \<and> (\<forall>k. count_of (errorCounts t') k = count_list keys k)
         \<and> (\<forall>k. k \<in> set keys \<and> length (first_occurrences keys) \<le> 5 \<longrightarrow>
                [(''message'', k), (''count'', JNum (real (count_list keys k)))]
                  \<in> set (topErrors (getErrorSummary t')))"
    unfolding Let_def using counts lookup top
    by (simp add: t'_def t0_def keys_def)
next
  assume dis: "cfg_enabled tc = Some False"
  then show "errorCounts (trackErrors cs (ErrorTracker_new tc)) = []"
    by (simp add: trackErrors_disabled ErrorTracker_new_def)
  show "topErrors (getErrorSummary (trackErrors cs (ErrorTracker_new tc))) = []"
    using dis by (simp add: trackErrors_disabled ErrorTracker_new_def getErrorSummary_def sorted_counts_def)
qed

theorem error_summary_ranks_messages_witness:
  "cfg_enabled \<lparr>cfg_enabled = None, cfg_maxErrors = None\<rparr> \<noteq> Some False
   \<and> JStr ''disk full'' \<in> set (map call_key three_errors)
   \<and> length (first_occurrences (map call_key three_errors)) \<le> 5
   \<and> errorCounts (trackErrors three_errors (ErrorTracker_new \<lparr>cfg_enabled = None, cfg_maxErrors = None\<rparr>))
       = [(JStr ''disk full'', 2), (JStr ''timeout'', 1)]
   \<and> [(''message'', JStr ''disk full''), (''count'', JNum 2)]
       \<in> set (topErrors (getErrorSummary
             (trackErrors three_errors (ErrorTracker_new \<lparr>cfg_enabled = None, cfg_maxErrors = None\<rparr>))))"
proof -
  let ?tc = "\<lparr>cfg_enabled = None, cfg_maxErrors = None\<rparr>"
  have keys: "map call_key three_errors = [JStr ''disk full'', JStr ''timeout'', JStr ''disk full'']"
    by (simp add: three_errors_def call_key_def record_of_def errorRecord_of_def obj_spread_def
        obj_get_def js_or_def falsy_def)
  have h1: "cfg_enabled ?tc \<noteq> Some False" by simp
  have h2: "JStr ''disk full'' \<in> set (map call_key three_errors)" by (simp add: keys)
  have h3: "length (first_occurrences (map call_key three_errors)) \<le> 5"
    by (simp add: keys first_occurrences_def)
  note T = error_summary_ranks_messages[of "ErrorTracker_new ?tc" ?tc three_errors, unfolded Let_def]
  have a: "errorCounts (trackErrors three_errors (ErrorTracker_new ?tc))
       = [(JStr ''disk full'', 2), (JStr ''timeout'', 1)]"
    using T h1 by (simp add: keys first_occurrences_def)
  have "[(''message'', JStr ''disk full''),
         (''count'', JNum (real (count_list (map call_key three_errors) (JStr ''disk full''))))]
       \<in> set (topErrors (getErrorSummary (trackErrors three_errors (ErrorTracker_new ?tc))))"
    using T h1 h2 h3 by blast
  then have b: "[(''message'', JStr ''disk full''), (''count'', JNum 2)]
       \<in> set (topErrors (getErrorSummary (trackErrors three_errors (ErrorTracker_new ?tc))))"
    by (simp add: keys)
  show ?thesis using h1 h2 h3 a b by blast
qed

section \<open>Health check: the state of a module\<close>

lemma map_of_obj_set: "map_of (obj_set k v m) k' = (if k' = k then Some v else map_of m k')"
  by (induction m) auto

lemma map_obj_set_same:
  "map_of m k = Some v \<Longrightarrow> f (k, v') = f (k, v) \<Longrightarrow> map f (obj_set k v' m) = map f m"
  by (induction m) (auto split: if_splits)

lemma length_obj_set_present: "map_of m k = Some v \<Longrightarrow> length (obj_set k v' m) = length m"
  by (induction m) (auto split: if_splits)

lemma checkModule_resolves:
  assumes "map_of (modules r) nm = Some md" "check md (clock r) = (Resolves res, t)"
  shows "checkModule nm r =
     (let status = [(''name'', JStr nm), (''timestamp'', JNum t),
                    (''healthy'', JBool (healthy res \<noteq> JBool False)),
                    (''metrics'', js_or (metrics res) (JObj [])),
                    (''message'', message res),
                    (''checkDuration'', JNum (t - clock r))];
          md1 = md\<lparr>lastCheck := Some t, lastStatus := Some status\<rparr>
      in if healthy res \<noteq> JBool False then
           (Inr (Some status),
            r\<lparr>modules := obj_set nm (md1\<lparr>consecutiveFailures := 0\<rparr>) (modules r), clock := t\<rparr>)
         else
           (Inr (Some status),
            registry_logs (WARN, ''Module health check failed'',
                [(''name'', JStr nm),
                 (''consecutiveFailures'', JNum (real (consecutiveFailures md + 1))),
                 (''message'', message res)])
              (r\<lparr>modules := obj_set nm (md1\<lparr>consecutiveFailures := consecutiveFailures md + 1\<rparr>) (modules r),
                 clock := t\<rparr>)))"
  using assms by (simp add: checkModule_def Let_def)

lemma checkModule_rejects:
  assumes "map_of (modules r) nm = Some md" "check md (clock r) = (Rejects e, t)"
    and "error_message e = Inr msg"
  shows "checkModule nm r =
     (Inr (Some [(''name'', JStr nm), (''timestamp'', JNum t), (''healthy'', JBool False),
                 (''error'', msg),
                 (''consecutiveFailures'', JNum (real (consecutiveFailures md + 1)))]),
      (registry_logs (ERROR, ''Health check error'', [(''name'', JStr nm), (''error'', msg)]) r)
         \<lparr>modules := obj_set nm (md\<lparr>consecutiveFailures := consecutiveFailures md + 1\<rparr>) (modules r),
          clock := t\<rparr>)"
  using assms by (simp add: checkModule_def Let_def)

text \<open>When the message of the rejection cannot be read, the exception leaves \<^verbatim>\<open>checkModule\<close>
  and the module is as it was.\<close>

lemma checkModule_escapes:
  assumes "map_of (modules r) nm = Some md" "check md (clock r) = (Rejects e, t)"
    and "error_message e = Inl thrown"
  shows "checkModule nm r = (Inl thrown, r\<lparr>clock := t\<rparr>)"
  using assms by (simp add: checkModule_def Let_def)

lemma error_message_cases:
  "error_message e = (if e = JUndefined \<or> e = JNull then Inl TypeError
     else Inr (case e of JObj ob \<Rightarrow> obj_get ob ''message'' | _ \<Rightarrow> JUndefined))"
  by (cases e) (simp_all add: error_message_def)

lemma modules_registry_logs [simp]: "modules (registry_logs c r) = modules r"
  by (simp add: registry_logs_def)

lemma clock_registry_logs [simp]: "clock (registry_logs c r) = clock r"
  by (simp add: registry_logs_def)

text \<open>What one call does to the module it checks.\<close>

lemma checkModule_module:
  assumes "map_of (modules r) nm = Some md"
  shows "\<exists>md'. map_of (modules (snd (checkModule nm r))) nm = Some md'
           \<and> check md' = check md
           \<and> consecutiveFailures md' =
               (case fst (check md (clock r)) of
                  Resolves res \<Rightarrow> if healthy res \<noteq> JBool False then 0 else consecutiveFailures md + 1
                | Rejects e \<Rightarrow>
                    (case error_message e of
                       Inl thrown \<Rightarrow> consecutiveFailures md
                     | Inr msg \<Rightarrow> consecutiveFailures md + 1))"
proof (cases "check md (clock r)")
  case (Pair out t)
  show ?thesis
  proof (cases out)
    case (Resolves res)
    then show ?thesis
      using checkModule_resolves[OF assms, of res t] Pair
      by (auto simp: Let_def map_of_obj_set)
  next
    case (Rejects e)
    show ?thesis
    proof (cases "error_message e")
      case (Inl thrown)
      then show ?thesis
        using checkModule_escapes[OF assms, of e t thrown] Pair Rejects assms by simp
    next
      case (Inr msg)
      then show ?thesis
        using checkModule_rejects[OF assms, of e t msg] Pair Rejects
        by (auto simp: map_of_obj_set)
    qed
  qed
qed

lemma checkModule_times_unhealthy:
  assumes "map_of (modules r) nm = Some md"
    and "\<forall>x. \<exists>res t. check md x = (Resolves res, t) \<and> healthy res = JBool False"
  shows "failures_of (checkModule_times n nm r) nm = Some (consecutiveFailures md + n)"
  using assms
proof (induction n arbitrary: r md)
  case 0
  then show ?case by (simp add: failures_of_def)
next
  case (Suc n)
  obtain res t where run: "check md (clock r) = (Resolves res, t)" "healthy res = JBool False"
    using Suc.prems(2) by blast
  obtain md' where md': "map_of (modules (snd (checkModule nm r))) nm = Some md'"
      "check md' = check md"
      "consecutiveFailures md' = consecutiveFailures md + 1"
    using checkModule_module[OF Suc.prems(1)] run by auto
  have "failures_of (checkModule_times n nm (snd (checkModule nm r))) nm
          = Some (consecutiveFailures md' + n)"
    using md'(1) Suc.prems(2) md'(2) by (intro Suc.IH) simp_all
  then show ?case using md'(3) by simp
qed


lemma failures_of_registerModule: "failures_of (registerModule nm chk r) nm = Some 0"
  by (simp add: failures_of_def registerModule_def Let_def map_of_obj_set)

text \<open>
  The transitions of a registered module. A check result whose \<^verbatim>\<open>healthy\<close> field is missing,
  or is anything but \<^verbatim>\<open>false\<close>, gives a status with \<^verbatim>\<open>healthy = true\<close> and sets the failure
  counter to zero; a result with \<^verbatim>\<open>healthy: false\<close> gives a status with \<^verbatim>\<open>healthy = false\<close>
  and adds one to the counter; a check that rejects with a value whose message can be read
  gives a returned status with \<^verbatim>\<open>healthy = false\<close> and that message, and adds one to the
  counter; a check that rejects with \<^verbatim>\<open>undefined\<close> or \<^verbatim>\<open>null\<close> makes \<^verbatim>\<open>checkModule\<close> throw and
  leaves the counter as it was. For a module whose check always returns
  \<^verbatim>\<open>{healthy: false}\<close>, \<open>n\<close> calls add \<open>n\<close> to the counter, which starts at 0 at registration.
\<close>

lemma checkModule_transitions:
  assumes reg: "map_of (modules r) nm = Some md"
  shows "(\<forall>res t. check md (clock r) = (Resolves res, t) \<and> healthy res \<noteq> JBool False \<longrightarrow>
            (\<exists>st. fst (checkModule nm r) = Inr (Some st) \<and> obj_get st ''healthy'' = JBool True)
          \<and> failures_of (snd (checkModule nm r)) nm = Some 0)
       \<and> (\<forall>res t. check md (clock r) = (Resolves res, t) \<and> healthy res = JBool False \<longrightarrow>
            (\<exists>st. fst (checkModule nm r) = Inr (Some st) \<and> obj_get st ''healthy'' = JBool False)
          \<and> failures_of (snd (checkModule nm r)) nm = Some (consecutiveFailures md + 1))
       \<and> (\<forall>e msg t. check md (clock r) = (Rejects e, t) \<and> error_message e = Inr msg \<longrightarrow>
            (\<exists>st. fst (checkModule nm r) = Inr (Some st) \<and> obj_get st ''healthy'' = JBool False
                   \<and> obj_get st ''error'' = msg)
          \<and> failures_of (snd (checkModule nm r)) nm = Some (consecutiveFailures md + 1))
       \<and> (\<forall>e t. check md (clock r) = (Rejects e, t) \<and> (e = JUndefined \<or> e = JNull) \<longrightarrow>
            fst (checkModule nm r) = Inl TypeError
          \<and> failures_of (snd (checkModule nm r)) nm = Some (consecutiveFailures md)
          \<and> registry_log (snd (checkModule nm r)) = registry_log r)
       \<and> ((\<forall>x. \<exists>res t. check md x = (Resolves res, t) \<and> healthy res = JBool False) \<longrightarrow>
            (\<forall>n. failures_of (checkModule_times n nm r) nm = Some (consecutiveFailures md + n)))
       \<and> failures_of (registerModule nm' chk r0) nm' = Some 0"
proof (intro conjI allI impI)
  fix res t
  assume a: "check md (clock r) = (Resolves res, t) \<and> healthy res \<noteq> JBool False"
  then show "\<exists>st. fst (checkModule nm r) = Inr (Some st) \<and> obj_get st ''healthy'' = JBool True"
    using checkModule_resolves[OF reg, of res t] by (simp add: Let_def obj_get_def)
  show "failures_of (snd (checkModule nm r)) nm = Some 0"
    using a checkModule_resolves[OF reg, of res t] by (simp add: Let_def failures_of_def map_of_obj_set)
next
  fix res t
  assume a: "check md (clock r) = (Resolves res, t) \<and> healthy res = JBool False"
  then show "\<exists>st. fst (checkModule nm r) = Inr (Some st) \<and> obj_get st ''healthy'' = JBool False"
    using checkModule_resolves[OF reg, of res t] by (simp add: Let_def obj_get_def)
  show "failures_of (snd (checkModule nm r)) nm = Some (consecutiveFailures md + 1)"
    using a checkModule_resolves[OF reg, of res t] by (simp add: Let_def failures_of_def map_of_obj_set)
next
  fix e msg t
  assume a: "check md (clock r) = (Rejects e, t) \<and> error_message e = Inr msg"
  then show "\<exists>st. fst (checkModule nm r) = Inr (Some st) \<and> obj_get st ''healthy'' = JBool False
                   \<and> obj_get st ''error'' = msg"
    using checkModule_rejects[OF reg, of e t msg] by (simp add: obj_get_def)
  show "failures_of (snd (checkModule nm r)) nm = Some (consecutiveFailures md + 1)"
    using a checkModule_rejects[OF reg, of e t msg] by (simp add: failures_of_def map_of_obj_set)
next
  fix e t
  assume a: "check md (clock r) = (Rejects e, t) \<and> (e = JUndefined \<or> e = JNull)"
  then have rej: "check md (clock r) = (Rejects e, t)" and em: "error_message e = Inl TypeError"
    by (simp_all add: error_message_cases)
  have esc: "checkModule nm r = (Inl TypeError, r\<lparr>clock := t\<rparr>)"
    using reg rej em by (rule checkModule_escapes)
  show "fst (checkModule nm r) = Inl TypeError" by (simp add: esc)
  show "failures_of (snd (checkModule nm r)) nm = Some (consecutiveFailures md)"
    using reg by (simp add: esc failures_of_def)
  show "registry_log (snd (checkModule nm r)) = registry_log r" by (simp add: esc)
next
  fix n
  assume "\<forall>x. \<exists>res t. check md x = (Resolves res, t) \<and> healthy res = JBool False"
  then show "failures_of (checkModule_times n nm r) nm = Some (consecutiveFailures md + n)"
    using reg by (intro checkModule_times_unhealthy)
next
  show "failures_of (registerModule nm' chk r0) nm' = Some 0"
    by (rule failures_of_registerModule)
qed

lemma registered_module:
  "map_of (modules (registerModule nm chk (HealthCheckSystem_new now))) nm
     = Some \<lparr>mod_name = nm, check = chk, lastCheck = None, lastStatus = None, consecutiveFailures = 0\<rparr>"
  by (simp add: registerModule_def HealthCheckSystem_new_def Let_def)

text \<open>The run of the specification: three unhealthy results, then a healthy one.\<close>

lemma three_failures_then_recovery:
  "failures_of (checkModule_times 3 ''terminal''
      (registerModule ''terminal'' always_unhealthy (HealthCheckSystem_new 0))) ''terminal'' = Some 3
   \<and> failures_of (checkModule_times 3 ''terminal''
      (registerModule ''terminal'' recovering_check (HealthCheckSystem_new 0))) ''terminal'' = Some 3
   \<and> failures_of (snd (checkModule ''terminal'' (checkModule_times 3 ''terminal''
      (registerModule ''terminal'' recovering_check (HealthCheckSystem_new 0))))) ''terminal'' = Some 0"
  by (simp add: numeral_3_eq_3 checkModule_def registerModule_def HealthCheckSystem_new_def
      recovering_check_def always_unhealthy_def Let_def registry_logs_def failures_of_def)

text \<open>
  C7. The claim is that a thrown or rejected check yields a returned status with
  \<^verbatim>\<open>healthy = false\<close> carrying the error, and increments \<^verbatim>\<open>consecutiveFailures\<close>. For the module
  \<^verbatim>\<open>gpu\<close>, whose check returns \<^verbatim>\<open>Promise.reject()\<close>, \<^verbatim>\<open>checkModule\<close> returns no status: it throws
  a \<^verbatim>\<open>TypeError\<close> from its own \<^verbatim>\<open>catch\<close> block, logs nothing, and the counter is still 0, also
  after three calls. For a check that throws a string, a status is returned, but its
  \<^verbatim>\<open>error\<close> field is \<^verbatim>\<open>undefined\<close>.
\<close>

theorem rejection_without_message_escapes:
  "fst (checkModule ''gpu'' gpu_registry) = Inl TypeError
   \<and> failures_of gpu_registry ''gpu'' = Some 0
   \<and> failures_of (snd (checkModule ''gpu'' gpu_registry)) ''gpu'' = Some 0
   \<and> failures_of (checkModule_times 3 ''gpu'' gpu_registry) ''gpu'' = Some 0
   \<and> registry_log (snd (checkModule ''gpu'' gpu_registry)) = registry_log gpu_registry
   \<and> fst (checkModule ''gpu'' (registerModule ''gpu'' throwing_string (HealthCheckSystem_new 0)))
       = Inr (Some [(''name'', JStr ''gpu''), (''timestamp'', JNum 1), (''healthy'', JBool False),
                    (''error'', JUndefined), (''consecutiveFailures'', JNum 1)])"
  by (simp add: gpu_registry_def numeral_3_eq_3 checkModule_def registerModule_def
      HealthCheckSystem_new_def rejecting_bare_def throwing_string_def error_message_def Let_def
      registry_logs_def failures_of_def)

text \<open>
  What a check that throws or rejects leaves unchanged, whatever it rejects with: the
  module's \<^verbatim>\<open>lastCheck\<close> and \<^verbatim>\<open>lastStatus\<close>, so that \<^verbatim>\<open>getLastStatus\<close> afterwards reports the
  same module statuses as before the call, for this module its previous cached status, or
  \<^verbatim>\<open>Not yet checked\<close> with \<^verbatim>\<open>healthy = null\<close> when it has none. When the message of the rejection
  can be read, a status with \<^verbatim>\<open>healthy = false\<close> is returned and the counter goes up by one.
\<close>

lemma rejected_check_keeps_cached_status:
  assumes reg: "map_of (modules r) nm = Some md"
    and rej: "check md (clock r) = (Rejects e, t)"
  shows "map_option lastCheck (map_of (modules (snd (checkModule nm r))) nm) = Some (lastCheck md)
       \<and> map_option lastStatus (map_of (modules (snd (checkModule nm r))) nm) = Some (lastStatus md)
       \<and> ls_modules (getLastStatus (snd (checkModule nm r))) = ls_modules (getLastStatus r)
       \<and> overall (getLastStatus (snd (checkModule nm r))) = overall (getLastStatus r)
       \<and> (lastStatus md = None \<longrightarrow>
             [(''name'', JStr nm), (''healthy'', JNull), (''message'', JStr ''Not yet checked'')]
               \<in> set (ls_modules (getLastStatus (snd (checkModule nm r)))))
       \<and> (\<forall>s. lastStatus md = Some s \<longrightarrow> s \<in> set (ls_modules (getLastStatus (snd (checkModule nm r)))))
       \<and> (\<forall>msg. error_message e = Inr msg \<longrightarrow>
             (\<exists>st. fst (checkModule nm r) = Inr (Some st) \<and> obj_get st ''healthy'' = JBool False
                    \<and> obj_get st ''error'' = msg)
           \<and> failures_of (snd (checkModule nm r)) nm = Some (consecutiveFailures md + 1))"
proof -
  let ?f = "\<lambda>(nm, md). case lastStatus md of
                     Some st \<Rightarrow> st
                   | None \<Rightarrow> [(''name'', JStr nm), (''healthy'', JNull),
                               (''message'', JStr ''Not yet checked'')]"
  let ?md1 = "md\<lparr>consecutiveFailures := consecutiveFailures md + 1\<rparr>"
  let ?r' = "snd (checkModule nm r)"
  have mods: "modules ?r' = obj_set nm ?md1 (modules r) \<or> modules ?r' = modules r"
  proof (cases "error_message e")
    case (Inl thrown)
    then show ?thesis using checkModule_escapes[OF reg rej] by simp
  next
    case (Inr msg)
    then show ?thesis using checkModule_rejects[OF reg rej] by simp
  qed
  have "map ?f (obj_set nm ?md1 (modules r)) = map ?f (modules r)"
    using reg by (intro map_obj_set_same) simp_all
  then have same: "map ?f (modules ?r') = map ?f (modules r)"
    using mods by auto
  have ls: "ls_modules (getLastStatus ?r') = ls_modules (getLastStatus r)"
    using same by (simp add: getLastStatus_def Let_def)
  have ov: "overall (getLastStatus ?r') = overall (getLastStatus r)"
    using same by (simp add: getLastStatus_def Let_def)
  have mem: "(nm, md) \<in> set (modules r)" using reg by (rule map_of_SomeD)
  then have "?f (nm, md) \<in> set (ls_modules (getLastStatus r))"
    unfolding getLastStatus_def Let_def by (simp only: last_status.simps set_map) (rule imageI)
  then have entry: "?f (nm, md) \<in> set (ls_modules (getLastStatus ?r'))"
    using ls by simp
  have lc: "map_option lastCheck (map_of (modules ?r') nm) = Some (lastCheck md)"
    "map_option lastStatus (map_of (modules ?r') nm) = Some (lastStatus md)"
    using mods reg by (auto simp: map_of_obj_set)
  have e1: "lastStatus md = None \<longrightarrow>
             [(''name'', JStr nm), (''healthy'', JNull), (''message'', JStr ''Not yet checked'')]
               \<in> set (ls_modules (getLastStatus ?r'))"
    using entry by auto
  have e2: "\<forall>s. lastStatus md = Some s \<longrightarrow> s \<in> set (ls_modules (getLastStatus ?r'))"
    using entry by auto
  have st: "\<forall>msg. error_message e = Inr msg \<longrightarrow>
             (\<exists>st. fst (checkModule nm r) = Inr (Some st) \<and> obj_get st ''healthy'' = JBool False
                    \<and> obj_get st ''error'' = msg)
           \<and> failures_of (snd (checkModule nm r)) nm = Some (consecutiveFailures md + 1)"
  proof (intro allI impI)
    fix msg assume m: "error_message e = Inr msg"
    show "(\<exists>st. fst (checkModule nm r) = Inr (Some st) \<and> obj_get st ''healthy'' = JBool False
                    \<and> obj_get st ''error'' = msg)
           \<and> failures_of (snd (checkModule nm r)) nm = Some (consecutiveFailures md + 1)"
      using checkModule_rejects[OF reg rej m] by (simp add: obj_get_def failures_of_def map_of_obj_set)
  qed
  show ?thesis using st lc ls ov e1 e2 by blast
qed

text \<open>
  C10. The claim is that a check that throws or rejects makes \<^verbatim>\<open>checkModule\<close> increment
  \<^verbatim>\<open>consecutiveFailures\<close> and return a status with \<^verbatim>\<open>healthy = false\<close>, leaving the cached
  status as it was. The module \<^verbatim>\<open>net\<close> has failed once, so its counter is 1 and its status
  is cached; its check then throws \<^verbatim>\<open>null\<close>. \<^verbatim>\<open>checkModule\<close> returns no status, it throws a
  \<^verbatim>\<open>TypeError\<close>, and the counter is still 1: the failure is not counted. The cached status
  is unchanged, as claimed.
\<close>

theorem failed_check_without_message_not_counted:
  "failures_of net_registry ''net'' = Some 1
   \<and> fst (checkModule ''net'' net_registry) = Inl TypeError
   \<and> failures_of (snd (checkModule ''net'' net_registry)) ''net'' = Some 1
   \<and> ls_modules (getLastStatus (snd (checkModule ''net'' net_registry)))
       = ls_modules (getLastStatus net_registry)
   \<and> ls_modules (getLastStatus net_registry)
       = [[(''name'', JStr ''net''), (''timestamp'', JNum 1), (''healthy'', JBool False),
           (''metrics'', JObj []), (''message'', JStr ''down''), (''checkDuration'', JNum 1)]]"
  by (simp add: net_registry_def checkModule_def registerModule_def HealthCheckSystem_new_def
      unhealthy_then_null_def error_message_def Let_def registry_logs_def failures_of_def
      getLastStatus_def js_or_def falsy_def)

end
